theory Spec2Isabelle
  imports Main
begin

section \<open>The interpreter of \<open>src/python/bf3.py\<close>\<close>

subsection \<open>Tokens and compiled nodes\<close>

text \<open>
  \<open>class Token(MultiValueEnum)\<close>: six members; \<open>>\<close> and \<open><\<close> are both values of
  \<open>IncrPtr\<close>, \<open>+\<close> and \<open>-\<close> both values of \<open>Incr\<close>.
\<close>

datatype Token = IncrPtr | Incr | StdOut | StdIn | LoopStart | LoopEnd

text \<open>
  The lists \<open>c_tokens\<close> and the loop bodies hold either a \<open>CountedToken\<close> (a named tuple
  of a token and a count) or a Python list, which is the body of a loop.
\<close>

datatype c_token = CountedToken Token int | LoopBody "c_token list"

text \<open>
  The exceptions the code can raise: the two \<open>Exception("BF script error: ...")\<close> of
  \<open>parse\<close> (the first carries the position), and the built-in ones of the Python
  operations the code uses.
\<close>

datatype error =
    NoMatchingOpen nat
  | NoMatchingClosed
  | ValueError
  | IndexError
  | TypeError

text \<open>
  The fields of \<open>Interpreter\<close>, in the order of \<open>__init__\<close>. Python integers are
  unbounded: \<open>int\<close>. The instruction pointer starts at 0 and is only incremented:
  \<open>nat\<close>. The stack is a Python list used with \<open>append\<close> and \<open>pop\<close>: its top is its
  last element. The last two fields are not fields of the class: they stand for
  \<open>sys.stdin\<close> (the characters not read yet) and \<open>sys.stdout\<close> (the characters written
  so far), each character a Unicode code point as Python 3 strings have them.
\<close>

record interp =
  stack :: "c_token list list"
  c_tokens :: "c_token list"
  data_ptr :: int
  instr_ptr :: nat
  program :: string
  cell_size :: int
  memory :: "int list"
  max_int :: int
  runtime_units :: string
  sys_stdin :: "nat list"
  sys_stdout :: "nat list"

text \<open>
  An exception leaves the object as it was when raised: the outcome of a method is
  either the exception with the state reached, or the state on return.
\<close>

type_synonym outcome = "(error \<times> interp) + interp"

subsection \<open>The Python operations the code uses\<close>

text \<open>\<open>Token(ch)\<close>: the member with that value, \<open>ValueError\<close> (here \<open>None\<close>) if none.\<close>

definition Token_of :: "char \<Rightarrow> Token option" where
  "Token_of ch =
     (if ch = CHR ''>'' \<or> ch = CHR ''<'' then Some IncrPtr
      else if ch = CHR ''+'' \<or> ch = CHR ''-'' then Some Incr
      else if ch = CHR ''.'' then Some StdOut
      else if ch = CHR '','' then Some StdIn
      else if ch = CHR ''['' then Some LoopStart
      else if ch = CHR '']'' then Some LoopEnd
      else None)"

text \<open>\<open>-1 if ch in "<-" else 1\<close>, for a string \<open>ch\<close> of one character.\<close>

definition delta :: "char \<Rightarrow> int" where
  "delta ch = (if ch = CHR ''<'' \<or> ch = CHR ''-'' then - 1 else 1)"

text \<open>\<open>a << k\<close>: \<open>ValueError\<close> (negative shift count) when \<open>k < 0\<close>.\<close>

definition py_lshift :: "int \<Rightarrow> int \<Rightarrow> error + int" where
  "py_lshift a k = (if k < 0 then Inl ValueError else Inr (a * 2 ^ nat k))"

text \<open>
  List indexing \<open>xs[i]\<close>: a negative index counts from the end, and an index outside
  \<open>[-len, len)\<close> raises \<open>IndexError\<close>.
\<close>

definition py_index :: "'a list \<Rightarrow> int \<Rightarrow> nat option" where
  "py_index xs i =
     (let n = int (length xs); j = (if i < 0 then i + n else i)
      in if 0 \<le> j \<and> j < n then Some (nat j) else None)"

definition getitem :: "'a list \<Rightarrow> int \<Rightarrow> error + 'a" where
  "getitem xs i = (case py_index xs i of None \<Rightarrow> Inl IndexError | Some j \<Rightarrow> Inr (xs ! j))"

definition setitem :: "'a list \<Rightarrow> int \<Rightarrow> 'a \<Rightarrow> error + 'a list" where
  "setitem xs i v = (case py_index xs i of None \<Rightarrow> Inl IndexError | Some j \<Rightarrow> Inr (xs[j := v]))"

text \<open>\<open>chr(v)\<close>: \<open>ValueError\<close> unless \<open>v\<close> is in \<open>range(0x110000)\<close>.\<close>

definition py_chr :: "int \<Rightarrow> error + nat" where
  "py_chr v = (if 0 \<le> v \<and> v < 1114112 then Inr (nat v) else Inl ValueError)"

text \<open>\<open>ord(s)\<close>: \<open>TypeError\<close> unless \<open>s\<close> is a string of length 1.\<close>

definition py_ord :: "nat list \<Rightarrow> error + int" where
  "py_ord s = (case s of [c] \<Rightarrow> Inr (int c) | _ \<Rightarrow> Inl TypeError)"

text \<open>
  \<open>sys.stdin.read(n)\<close> on a text stream: at most \<open>n\<close> characters, all that is left
  when \<open>n\<close> is negative; the pair is the string read and the rest of the stream.
\<close>

definition py_read :: "int \<Rightarrow> nat list \<Rightarrow> nat list \<times> nat list" where
  "py_read n buf = (if n < 0 then (buf, []) else (take (nat n) buf, drop (nat n) buf))"

subsection \<open>Construction\<close>

text \<open>
  \<open>__init__\<close>: \<open>[0] * m_size\<close> is empty for \<open>m_size \<le> 0\<close>; \<open>2 << (c_size - 1)\<close> raises
  for \<open>c_size \<le> 0\<close>, and then there is no object. The last argument is the content
  of the input stream.
\<close>

definition init :: "string \<Rightarrow> int \<Rightarrow> int \<Rightarrow> string \<Rightarrow> nat list \<Rightarrow> error + interp" where
  "init prog c_size m_size units inp =
     (case py_lshift 2 (c_size - 1) of
        Inl e \<Rightarrow> Inl e
      | Inr mx \<Rightarrow> Inr \<lparr> stack = [], c_tokens = [], data_ptr = 0, instr_ptr = 0,
                       program = prog, cell_size = c_size,
                       memory = replicate (nat m_size) 0, max_int = mx,
                       runtime_units = units, sys_stdin = inp, sys_stdout = [] \<rparr>)"

subsection \<open>The tape operations\<close>

text \<open>\<open>incr_ptr\<close>: the tape grows by half its length when the pointer equals the length.\<close>

definition incr_ptr :: "int \<Rightarrow> interp \<Rightarrow> interp" where
  "incr_ptr count s =
     (let s1 = s\<lparr>data_ptr := data_ptr s + count\<rparr>
      in if data_ptr s1 = int (length (memory s1))
         then s1\<lparr>memory := memory s1 @ replicate (length (memory s1) div 2) 0\<rparr>
         else s1)"

text \<open>
  \<open>incr\<close>: two augmented assignments. The first reads and writes the cell; the second
  reads the cell, evaluates \<open>2 << (cell_size - 1)\<close>, and writes the remainder. Python's
  \<open>%\<close> with a positive modulus is never negative, as \<open>mod\<close> on \<open>int\<close>.
\<close>

definition incr :: "int \<Rightarrow> interp \<Rightarrow> outcome" where
  "incr count s =
     (case getitem (memory s) (data_ptr s) of
        Inl e \<Rightarrow> Inl (e, s)
      | Inr v \<Rightarrow>
          (case setitem (memory s) (data_ptr s) (v + count) of
             Inl e \<Rightarrow> Inl (e, s)
           | Inr m1 \<Rightarrow>
               let s1 = s\<lparr>memory := m1\<rparr> in
               (case getitem (memory s1) (data_ptr s1) of
                  Inl e \<Rightarrow> Inl (e, s1)
                | Inr v1 \<Rightarrow>
                    (case py_lshift 2 (cell_size s1 - 1) of
                       Inl e \<Rightarrow> Inl (e, s1)
                     | Inr m \<Rightarrow>
                         (case setitem (memory s1) (data_ptr s1) (v1 mod m) of
                            Inl e \<Rightarrow> Inl (e, s1)
                          | Inr m2 \<Rightarrow> Inr (s1\<lparr>memory := m2\<rparr>))))))"

text \<open>
  \<open>stdout\<close>: \<open>range(count)\<close> is empty for \<open>count \<le> 0\<close>; each round reads the cell,
  converts it with \<open>chr\<close> and writes the character. The encoding of the character by
  the stream is outside the model.
\<close>

fun stdout_loop :: "nat \<Rightarrow> interp \<Rightarrow> outcome" where
  "stdout_loop 0 s = Inr s"
| "stdout_loop (Suc n) s =
     (case getitem (memory s) (data_ptr s) of
        Inl e \<Rightarrow> Inl (e, s)
      | Inr v \<Rightarrow>
          (case py_chr v of
             Inl e \<Rightarrow> Inl (e, s)
           | Inr ch \<Rightarrow> stdout_loop n (s\<lparr>sys_stdout := sys_stdout s @ [ch]\<rparr>)))"

definition stdout :: "int \<Rightarrow> interp \<Rightarrow> outcome" where
  "stdout count s = stdout_loop (nat count) s"

text \<open>
  \<open>stdin\<close>: the right-hand side is evaluated first, so the characters are consumed
  even when \<open>ord\<close> or the store raises.
\<close>

definition stdin :: "int \<Rightarrow> interp \<Rightarrow> outcome" where
  "stdin count s =
     (let (str, rest) = py_read count (sys_stdin s);
          s1 = s\<lparr>sys_stdin := rest\<rparr>
      in case py_ord str of
           Inl e \<Rightarrow> Inl (e, s1)
         | Inr v \<Rightarrow>
             (case setitem (memory s1) (data_ptr s1) v of
                Inl e \<Rightarrow> Inl (e, s1)
              | Inr m1 \<Rightarrow> Inr (s1\<lparr>memory := m1\<rparr>)))"

subsection \<open>The compiler\<close>

text \<open>
  The inner \<open>while\<close> of \<open>parse\<close>: as long as the next character exists and has the
  same token, move to it and add its increment. \<open>Token(...)\<close> raises on a character
  that is no instruction. \<open>instr_ptr < len(program) - 1\<close> is stated on \<open>nat\<close>, where
  it is the same condition (with an empty program both are false).
\<close>

function fold_run :: "Token \<Rightarrow> int \<Rightarrow> interp \<Rightarrow> (error \<times> interp) + (int \<times> interp)" where
  "fold_run token count s =
     (if instr_ptr s < length (program s) - 1 then
        (case Token_of (program s ! (instr_ptr s + 1)) of
           None \<Rightarrow> Inl (ValueError, s)
         | Some t \<Rightarrow>
             if token = t then
               (let s1 = s\<lparr>instr_ptr := instr_ptr s + 1\<rparr>
                in fold_run token (count + delta (program s1 ! instr_ptr s1)) s1)
             else Inr (count, s))
      else Inr (count, s))"
  by pat_completeness auto
termination
  by (relation "measure (\<lambda>(token, count, s). length (program s) - instr_ptr s)") auto

text \<open>One round of the outer \<open>while\<close> of \<open>parse\<close>, entered with \<open>instr_ptr < len(program)\<close>.\<close>

definition parse_step :: "interp \<Rightarrow> outcome" where
  "parse_step s =
     (case Token_of (program s ! instr_ptr s) of
        None \<Rightarrow> Inl (ValueError, s)
      | Some token \<Rightarrow>
          let count = delta (program s ! instr_ptr s) in
          (case
             (if token = LoopStart then Inr (s\<lparr>stack := stack s @ [[]]\<rparr>)
              else if token = LoopEnd then
                (if stack s \<noteq> [] then
                   (let loop = last (stack s);
                        s1 = s\<lparr>stack := butlast (stack s)\<rparr>
                    in if stack s1 \<noteq> []
                       then Inr (s1\<lparr>stack := butlast (stack s1) @ [last (stack s1) @ [LoopBody loop]]\<rparr>)
                       else Inr (s1\<lparr>c_tokens := c_tokens s1 @ [LoopBody loop]\<rparr>))
                 else Inl (NoMatchingOpen (instr_ptr s), s))
              else
                (case fold_run token count s of
                   Inl e \<Rightarrow> Inl e
                 | Inr (count', s1) \<Rightarrow>
                     let c_token = CountedToken token count' in
                     if stack s1 \<noteq> []
                     then Inr (s1\<lparr>stack := butlast (stack s1) @ [last (stack s1) @ [c_token]]\<rparr>)
                     else Inr (s1\<lparr>c_tokens := c_tokens s1 @ [c_token]\<rparr>)))
           of
             Inl e \<Rightarrow> Inl e
           | Inr s2 \<Rightarrow> Inr (s2\<lparr>instr_ptr := instr_ptr s2 + 1\<rparr>)))"

text \<open>
  The outer \<open>while\<close> of \<open>parse\<close>. Each round moves the instruction pointer forward,
  which is its termination argument (proved below, after the facts it needs).
\<close>

function parse_loop :: "interp \<Rightarrow> outcome" where
  "parse_loop s =
     (if instr_ptr s < length (program s) then
        (case parse_step s of
           Inl e \<Rightarrow> Inl e
         | Inr s1 \<Rightarrow> parse_loop s1)
      else Inr s)"
  by pat_completeness auto

text \<open>\<open>parse\<close>: the scan, then the check that no loop is left open.\<close>

definition parse :: "interp \<Rightarrow> outcome" where
  "parse s =
     (case parse_loop s of
        Inl e \<Rightarrow> Inl e
      | Inr s1 \<Rightarrow> if stack s1 \<noteq> [] then Inl (NoMatchingClosed, s1) else Inr s1)"

subsection \<open>The executor\<close>

text \<open>
  The \<open>elif\<close> chain of \<open>execute\<close> for a counted token; a token of another kind
  falls through every branch.
\<close>

definition exec_counted :: "Token \<Rightarrow> int \<Rightarrow> interp \<Rightarrow> outcome" where
  "exec_counted t n s =
     (if t = IncrPtr then Inr (incr_ptr n s)
      else if t = Incr then incr n s
      else if t = StdOut then stdout n s
      else if t = StdIn then stdin n s
      else Inr s)"

text \<open>
  \<open>execute\<close> is the \<open>for\<close> over the nodes, \<open>while_loop\<close> the \<open>while\<close> it runs for a
  loop body. The \<open>while\<close> may run forever, so it takes fuel: every test of the
  condition uses one unit, and \<open>None\<close> says that the fuel did not suffice.
\<close>

fun execute :: "nat \<Rightarrow> c_token list \<Rightarrow> interp \<Rightarrow> outcome option"
and while_loop :: "nat \<Rightarrow> c_token list \<Rightarrow> interp \<Rightarrow> outcome option" where
  "execute fuel [] s = Some (Inr s)"
| "execute fuel (LoopBody body # rest) s =
     (case while_loop fuel body s of
        Some (Inr s1) \<Rightarrow> execute fuel rest s1
      | r \<Rightarrow> r)"
| "execute fuel (CountedToken t n # rest) s =
     (case exec_counted t n s of
        Inl e \<Rightarrow> Some (Inl e)
      | Inr s1 \<Rightarrow> execute fuel rest s1)"
| "while_loop 0 body s = None"
| "while_loop (Suc fuel) body s =
     (case getitem (memory s) (data_ptr s) of
        Inl e \<Rightarrow> Some (Inl (e, s))
      | Inr v \<Rightarrow>
          if v \<noteq> 0 then
            (case execute fuel body s of
               Some (Inr s1) \<Rightarrow> while_loop fuel body s1
             | r \<Rightarrow> r)
          else Some (Inr s))"

text \<open>\<open>run\<close> without its time measurement: \<open>parse\<close>, then \<open>execute(self.c_tokens)\<close>.\<close>

definition run :: "nat \<Rightarrow> interp \<Rightarrow> outcome option" where
  "run fuel s =
     (case parse s of
        Inl e \<Rightarrow> Some (Inl e)
      | Inr s1 \<Rightarrow> execute fuel (c_tokens s1) s1)"

text \<open>
  The compiler seen from outside: construct an interpreter for the program and parse;
  the result is the list that \<open>run\<close> hands to \<open>execute\<close>, or the exception.
\<close>

definition compile :: "string \<Rightarrow> int \<Rightarrow> int \<Rightarrow> string \<Rightarrow> nat list \<Rightarrow> error + c_token list" where
  "compile prog c_size m_size units inp =
     (case init prog c_size m_size units inp of
        Inl e \<Rightarrow> Inl e
      | Inr s \<Rightarrow>
          (case parse s of
             Inl (e, s1) \<Rightarrow> Inl e
           | Inr s1 \<Rightarrow> Inr (c_tokens s1)))"

text \<open>
  An interpreter in the middle of a run, with the given cell width, tape, pointer and
  pending input: the fixture of the concrete examples below.
\<close>

definition machine :: "int \<Rightarrow> int list \<Rightarrow> int \<Rightarrow> nat list \<Rightarrow> interp" where
  "machine w mem p inp =
     \<lparr> stack = [], c_tokens = [], data_ptr = p, instr_ptr = 0, program = [],
       cell_size = w, memory = mem, max_int = 2 ^ nat w, runtime_units = ''ms'',
       sys_stdin = inp, sys_stdout = [] \<rparr>"

text \<open>The interpreter as a method leaves it, by return or by exception.\<close>

definition outcome_state :: "outcome \<Rightarrow> interp" where
  "outcome_state r = (case r of Inl (e, s) \<Rightarrow> s | Inr s \<Rightarrow> s)"

text \<open>A node that contains a pointer movement, at any depth.\<close>

fun moves :: "c_token \<Rightarrow> bool" where
  "moves (CountedToken t n) = (t = IncrPtr)"
| "moves (LoopBody body) = (\<exists>x \<in> set body. moves x)"

text \<open>
  What a method leaves alone when it touches neither the tape nor the streams: tape,
  pointer, streams, program and cell width are the same, and the list of compiled
  nodes has only grown at its end.
\<close>

definition tape_kept :: "interp \<Rightarrow> interp \<Rightarrow> bool" where
  "tape_kept s s' \<longleftrightarrow>
     memory s' = memory s \<and> data_ptr s' = data_ptr s \<and> sys_stdin s' = sys_stdin s
     \<and> sys_stdout s' = sys_stdout s \<and> program s' = program s
     \<and> cell_size s' = cell_size s
     \<and> (\<exists>xs. c_tokens s' = c_tokens s @ xs)"

text \<open>Every cell of the tape is in \<open>[0, 2^W)\<close>, for the cell width \<open>W\<close> of the interpreter.\<close>

definition cells_in_range :: "interp \<Rightarrow> bool" where
  "cells_in_range s \<longleftrightarrow> (\<forall>v \<in> set (memory s). 0 \<le> v \<and> v < 2 ^ nat (cell_size s))"

section \<open>Facts about the compiler\<close>

declare fold_run.simps [simp del]

text \<open>The inner loop changes nothing but the instruction pointer, which it never moves back.\<close>

lemma fold_run_frame:
  "fold_run token count s = Inr (c, s') \<Longrightarrow>
     (\<exists>i. s' = s\<lparr>instr_ptr := i\<rparr> \<and> instr_ptr s \<le> i)"
proof (induction token count s rule: fold_run.induct)
  case (1 token count s)
  note unf = fold_run.simps [of token count s]
  show ?case
  proof (cases "instr_ptr s < length (program s) - 1")
    case False
    with "1.prems" unf have "s' = s" by simp
    then have "s' = s\<lparr>instr_ptr := instr_ptr s\<rparr>" by simp
    then show ?thesis by blast
  next
    case True
    show ?thesis
    proof (cases "Token_of (program s ! (instr_ptr s + 1))")
      case None
      with True "1.prems" unf show ?thesis by simp
    next
      case (Some t)
      show ?thesis
      proof (cases "token = t")
        case False
        with True Some "1.prems" unf have "s' = s" by simp
        then have "s' = s\<lparr>instr_ptr := instr_ptr s\<rparr>" by simp
        then show ?thesis by blast
      next
        case eq: True
        let ?s1 = "s\<lparr>instr_ptr := instr_ptr s + 1\<rparr>"
        from True Some eq "1.prems" unf
        have "fold_run token (count + delta (program ?s1 ! instr_ptr ?s1)) ?s1 = Inr (c, s')"
          by (simp add: Let_def)
        from "1.IH" [OF True Some eq refl this]
        obtain i where "s' = ?s1\<lparr>instr_ptr := i\<rparr>" and "instr_ptr ?s1 \<le> i"
          by blast
        then have "s' = s\<lparr>instr_ptr := i\<rparr> \<and> instr_ptr s \<le> i" by simp
        then show ?thesis by blast
      qed
    qed
  qed
qed

lemma parse_step_advances:
  "parse_step s = Inr s' \<Longrightarrow> program s' = program s \<and> instr_ptr s < instr_ptr s'"
  unfolding parse_step_def
  by (auto simp: Let_def split: option.splits sum.splits if_splits prod.splits
           dest!: fold_run_frame)

termination parse_loop
proof (relation "measure (\<lambda>s. length (program s) - instr_ptr s)")
  show "wf (measure (\<lambda>s. length (program s) - instr_ptr s))" by simp
next
  fix s s1
  assume "instr_ptr s < length (program s)" "parse_step s = Inr s1"
  then show "(s1, s) \<in> measure (\<lambda>s. length (program s) - instr_ptr s)"
    using parse_step_advances [of s s1] by auto
qed

declare parse_loop.simps [simp del]

section \<open>Facts about the tape operations\<close>

lemma py_lshift_two: "1 \<le> w \<Longrightarrow> py_lshift 2 (w - 1) = Inr (2 ^ nat w)"
proof -
  assume w: "1 \<le> w"
  then have "nat w = Suc (nat (w - 1))" by simp
  then have "(2::int) ^ nat w = 2 * 2 ^ nat (w - 1)" by simp
  with w show ?thesis by (simp add: py_lshift_def)
qed

lemma py_index_less: "py_index xs i = Some j \<Longrightarrow> j < length xs"
  by (auto simp: py_index_def Let_def split: if_splits)

lemma py_index_update [simp]: "py_index (xs[j := v]) i = py_index xs i"
  by (simp add: py_index_def)

section \<open>Compiling a run of one kind\<close>

lemma fold_run_uniform:
  "instr_ptr s < length (program s) \<Longrightarrow>
   (\<forall>j. instr_ptr s < j \<and> j < length (program s) \<longrightarrow> Token_of (program s ! j) = Some token) \<Longrightarrow>
   fold_run token count s =
     Inr (count + sum_list (map delta (drop (Suc (instr_ptr s)) (program s))),
          s\<lparr>instr_ptr := length (program s) - 1\<rparr>)"
proof (induction token count s rule: fold_run.induct)
  case (1 token count s)
  note unf = fold_run.simps [of token count s]
  show ?case
  proof (cases "instr_ptr s < length (program s) - 1")
    case False
    with "1.prems"(1) have last: "instr_ptr s = length (program s) - 1" by simp
    then have "s\<lparr>instr_ptr := length (program s) - 1\<rparr> = s" by simp
    moreover from last "1.prems"(1) have "drop (Suc (instr_ptr s)) (program s) = []" by simp
    ultimately show ?thesis using False unf by simp
  next
    case True
    let ?s1 = "s\<lparr>instr_ptr := instr_ptr s + 1\<rparr>"
    from True have next_in: "Suc (instr_ptr s) < length (program s)" by simp
    with "1.prems"(2) have tok: "Token_of (program s ! (instr_ptr s + 1)) = Some token" by simp
    have p1: "instr_ptr ?s1 < length (program ?s1)" using next_in by simp
    have p2: "\<forall>j. instr_ptr ?s1 < j \<and> j < length (program ?s1) \<longrightarrow>
                Token_of (program ?s1 ! j) = Some token"
      using "1.prems"(2) by simp
    have step: "fold_run token count s =
                  fold_run token (count + delta (program ?s1 ! instr_ptr ?s1)) ?s1"
      using True tok unf by (simp add: Let_def)
    have split: "drop (Suc (instr_ptr s)) (program s) =
                   program s ! Suc (instr_ptr s) # drop (Suc (Suc (instr_ptr s))) (program s)"
      using next_in by (simp add: Cons_nth_drop_Suc)
    from "1.IH" [OF True tok refl refl p1 p2] step split
    show ?thesis by simp
  qed
qed

lemma init_ok:
  "1 \<le> c \<Longrightarrow> init prog c m u inp =
     Inr \<lparr> stack = [], c_tokens = [], data_ptr = 0, instr_ptr = 0,
           program = prog, cell_size = c, memory = replicate (nat m) 0,
           max_int = 2 ^ nat c, runtime_units = u, sys_stdin = inp, sys_stdout = [] \<rparr>"
  by (simp add: init_def py_lshift_two)

lemma parse_loop_done: "\<not> instr_ptr s < length (program s) \<Longrightarrow> parse_loop s = Inr s"
  by (simp add: parse_loop.simps)

lemma parse_loop_step:
  "instr_ptr s < length (program s) \<Longrightarrow>
     parse_loop s = (case parse_step s of Inl e \<Rightarrow> Inl e | Inr s1 \<Rightarrow> parse_loop s1)"
  by (subst parse_loop.simps) simp

lemma parse_step_counted:
  "Token_of (program s ! instr_ptr s) = Some token \<Longrightarrow> token \<noteq> LoopStart \<Longrightarrow>
   token \<noteq> LoopEnd \<Longrightarrow>
   fold_run token (delta (program s ! instr_ptr s)) s = Inr (c, s1) \<Longrightarrow> stack s1 = [] \<Longrightarrow>
   parse_step s =
     Inr (s1\<lparr>c_tokens := c_tokens s1 @ [CountedToken token c], instr_ptr := instr_ptr s1 + 1\<rparr>)"
  by (simp add: parse_step_def)

lemma compile_run:
  assumes c: "1 \<le> c" and ne: "src \<noteq> []"
    and tok: "Token_of (hd src) = Some token" "token \<noteq> LoopStart" "token \<noteq> LoopEnd"
    and all: "\<forall>ch \<in> set src. Token_of ch = Some token"
  shows "compile src c m u inp = Inr [CountedToken token (sum_list (map delta src))]"
proof -
  define s0 where "s0 = \<lparr> stack = [], c_tokens = [], data_ptr = 0, instr_ptr = 0,
           program = src, cell_size = c, memory = replicate (nat m) 0,
           max_int = 2 ^ nat c, runtime_units = u, sys_stdin = inp, sys_stdout = [] \<rparr>"
  have f: "stack s0 = []" "c_tokens s0 = []" "instr_ptr s0 = 0" "program s0 = src"
    by (simp_all add: s0_def)
  from ne f have len: "instr_ptr s0 < length (program s0)" by simp
  from all f have uni: "\<forall>j. instr_ptr s0 < j \<and> j < length (program s0) \<longrightarrow>
                        Token_of (program s0 ! j) = Some token"
    by simp
  from ne have hd0: "src ! 0 = hd src" by (simp add: hd_conv_nth)
  from ne have total: "delta (hd src) + sum_list (map delta (drop (Suc 0) src)) =
                        sum_list (map delta src)"
    by (cases src) simp_all
  define s1 where "s1 = s0\<lparr>instr_ptr := length src - 1\<rparr>"
  have fr: "fold_run token (delta (program s0 ! instr_ptr s0)) s0 =
              Inr (sum_list (map delta src), s1)"
    using fold_run_uniform [OF len uni, of "delta (hd src)"] total f hd0
    by (simp add: s1_def)
  have g: "stack s1 = []" "c_tokens s1 = []" "instr_ptr s1 + 1 = length src" "program s1 = src"
    using f ne by (simp_all add: s1_def)
  define s2 where "s2 = s1\<lparr>c_tokens := c_tokens s1 @ [CountedToken token (sum_list (map delta src))],
                            instr_ptr := instr_ptr s1 + 1\<rparr>"
  have h: "stack s2 = []" "c_tokens s2 = [CountedToken token (sum_list (map delta src))]"
          "instr_ptr s2 = length src" "program s2 = src"
    using g by (simp_all add: s2_def)
  have "Token_of (program s0 ! instr_ptr s0) = Some token" using tok(1) f hd0 by simp
  from parse_step_counted [OF this tok(2,3) fr g(1)]
  have step: "parse_step s0 = Inr s2" by (simp add: s2_def)
  have "parse_loop s2 = Inr s2" using h by (simp add: parse_loop_done)
  with len step have "parse_loop s0 = Inr s2" by (simp add: parse_loop_step)
  with h have "parse s0 = Inr s2" by (simp add: parse_def)
  moreover from c have "init src c m u inp = Inr s0" by (simp add: init_ok s0_def)
  ultimately show ?thesis using h by (simp add: compile_def)
qed

lemma Token_of_chars:
  "Token_of CHR ''>'' = Some IncrPtr" "Token_of CHR ''<'' = Some IncrPtr"
  "Token_of CHR ''+'' = Some Incr" "Token_of CHR ''-'' = Some Incr"
  "Token_of CHR ''.'' = Some StdOut" "Token_of CHR '','' = Some StdIn"
  "Token_of CHR ''['' = Some LoopStart" "Token_of CHR '']'' = Some LoopEnd"
  by (simp_all add: Token_of_def)

section \<open>The transfer loop\<close>

lemma transfer_parse:
  "parse \<lparr> stack = [], c_tokens = [], data_ptr = 0, instr_ptr = 0,
           program = ''++>+++[<+>-]'', cell_size = w, memory = mem,
           max_int = mx, runtime_units = u, sys_stdin = inp, sys_stdout = [] \<rparr> =
   Inr \<lparr> stack = [],
         c_tokens = [CountedToken Incr 2, CountedToken IncrPtr 1, CountedToken Incr 3,
                     LoopBody [CountedToken IncrPtr (- 1), CountedToken Incr 1,
                               CountedToken IncrPtr 1, CountedToken Incr (- 1)]],
         data_ptr = 0, instr_ptr = 12,
         program = ''++>+++[<+>-]'', cell_size = w, memory = mem,
         max_int = mx, runtime_units = u, sys_stdin = inp, sys_stdout = [] \<rparr>"
  by (simp add: parse_def parse_loop.simps parse_step_def fold_run.simps Token_of_chars
                delta_def Let_def)

lemma transfer_execute:
  "execute (Suc (Suc (Suc (Suc 0))))
     [CountedToken Incr 2, CountedToken IncrPtr 1, CountedToken Incr 3,
      LoopBody [CountedToken IncrPtr (- 1), CountedToken Incr 1,
                CountedToken IncrPtr 1, CountedToken Incr (- 1)]]
     \<lparr> stack = st, c_tokens = ct, data_ptr = 0, instr_ptr = ip,
       program = prog, cell_size = 8, memory = 0 # 0 # rest,
       max_int = mx, runtime_units = u, sys_stdin = inp, sys_stdout = out \<rparr> =
   Some (Inr \<lparr> stack = st, c_tokens = ct, data_ptr = 1, instr_ptr = ip,
       program = prog, cell_size = 8, memory = 5 # 0 # rest,
       max_int = mx, runtime_units = u, sys_stdin = inp, sys_stdout = out \<rparr>)"
  by (simp add: exec_counted_def incr_ptr_def incr_def getitem_def setitem_def py_index_def
                py_lshift_def Let_def)

section \<open>Brackets\<close>

lemma fold_run_raises:
  "fold_run token count s = Inl (e, s') \<Longrightarrow>
     e = ValueError \<and> (\<exists>i. s' = s\<lparr>instr_ptr := i\<rparr>)"
proof (induction token count s rule: fold_run.induct)
  case (1 token count s)
  note unf = fold_run.simps [of token count s]
  have same: "s = s\<lparr>instr_ptr := instr_ptr s\<rparr>" by simp
  show ?case
  proof (cases "instr_ptr s < length (program s) - 1")
    case False
    with "1.prems" unf show ?thesis by simp
  next
    case True
    show ?thesis
    proof (cases "Token_of (program s ! (instr_ptr s + 1))")
      case None
      with True "1.prems" unf have "e = ValueError" "s' = s" by simp_all
      with same show ?thesis by blast
    next
      case (Some t)
      show ?thesis
      proof (cases "token = t")
        case False
        with True Some "1.prems" unf show ?thesis by simp
      next
        case eq: True
        let ?s1 = "s\<lparr>instr_ptr := instr_ptr s + 1\<rparr>"
        from True Some eq "1.prems" unf
        have "fold_run token (count + delta (program ?s1 ! instr_ptr ?s1)) ?s1 = Inl (e, s')"
          by (simp add: Let_def)
        from "1.IH" [OF True Some eq refl this]
        obtain i where "e = ValueError" "s' = ?s1\<lparr>instr_ptr := i\<rparr>" by blast
        then have "e = ValueError \<and> s' = s\<lparr>instr_ptr := i\<rparr>" by simp
        then show ?thesis by blast
      qed
    qed
  qed
qed

lemma Token_of_LoopEnd: "Token_of ch = Some LoopEnd \<Longrightarrow> ch = CHR '']''"
  by (simp add: Token_of_def split: if_splits)

lemma parse_step_raises:
  assumes "parse_step s = Inl (e, s')"
  shows "e \<noteq> NoMatchingClosed \<and> program s' = program s
       \<and> (\<forall>i. e = NoMatchingOpen i \<longrightarrow>
             s' = s \<and> i = instr_ptr s \<and> program s ! i = CHR '']'' \<and> stack s = [])"
  using assms unfolding parse_step_def
  by (auto simp: Let_def split: option.splits sum.splits if_splits prod.splits
           dest!: fold_run_raises Token_of_LoopEnd)

lemma parse_loop_returns:
  "parse_loop s = Inr s' \<Longrightarrow> program s' = program s \<and> length (program s') \<le> instr_ptr s'"
proof (induction s rule: parse_loop.induct)
  case (1 s)
  show ?case
  proof (cases "instr_ptr s < length (program s)")
    case False
    with "1.prems" have "s' = s" by (simp add: parse_loop_done)
    with False show ?thesis by simp
  next
    case True
    with "1.prems" obtain s1 where st: "parse_step s = Inr s1" and rest: "parse_loop s1 = Inr s'"
      by (auto simp: parse_loop_step split: sum.splits)
    from "1.IH" [OF True st rest] have "program s' = program s1"
      and "length (program s') \<le> instr_ptr s'" by blast+
    moreover from parse_step_advances [OF st] have "program s1 = program s" by simp
    ultimately show ?thesis by simp
  qed
qed

lemma parse_loop_raises:
  "parse_loop s = Inl (e, s') \<Longrightarrow>
     e \<noteq> NoMatchingClosed \<and> program s' = program s
     \<and> (\<forall>i. e = NoMatchingOpen i \<longrightarrow>
           instr_ptr s' = i \<and> i < length (program s') \<and> program s' ! i = CHR '']''
           \<and> stack s' = [])"
proof (induction s rule: parse_loop.induct)
  case (1 s)
  show ?case
  proof (cases "instr_ptr s < length (program s)")
    case False
    with "1.prems" show ?thesis by (simp add: parse_loop_done)
  next
    case True
    show ?thesis
    proof (cases "parse_step s")
      case (Inl x)
      with True "1.prems" have "parse_step s = Inl (e, s')" by (simp add: parse_loop_step)
      from parse_step_raises [OF this] True show ?thesis by auto
    next
      case (Inr s1)
      with True "1.prems" have "parse_loop s1 = Inl (e, s')" by (simp add: parse_loop_step)
      from "1.IH" [OF True Inr this]
      have ih: "e \<noteq> NoMatchingClosed" "program s' = program s1"
        "\<forall>i. e = NoMatchingOpen i \<longrightarrow>
           instr_ptr s' = i \<and> i < length (program s') \<and> program s' ! i = CHR '']''
           \<and> stack s' = []"
        by blast+
      from parse_step_advances [OF Inr] have "program s1 = program s" by simp
      with ih show ?thesis by simp
    qed
  qed
qed

lemma compile_brackets:
  assumes "1 \<le> c"
  shows "compile ''[]'' c m u inp = Inr [LoopBody []]"
    and "compile ''[[]]'' c m u inp = Inr [LoopBody [LoopBody []]]"
    and "compile ''[][]'' c m u inp = Inr [LoopBody [], LoopBody []]"
    and "compile '']'' c m u inp = Inl (NoMatchingOpen 0)"
    and "compile ''['' c m u inp = Inl NoMatchingClosed"
    and "compile ''[[]'' c m u inp = Inl NoMatchingClosed"
  using assms
  by (simp_all add: compile_def init_ok parse_def parse_loop.simps parse_step_def
                    Token_of_chars Let_def)

lemma parse_close_unmatched:
  assumes "instr_ptr s < length (program s)" and "program s ! instr_ptr s = CHR '']''"
    and "stack s = []"
  shows "parse s = Inl (NoMatchingOpen (instr_ptr s), s)"
proof -
  from assms(2) have "Token_of (program s ! instr_ptr s) = Some LoopEnd"
    by (simp add: Token_of_chars)
  with assms(3) have "parse_step s = Inl (NoMatchingOpen (instr_ptr s), s)"
    by (simp add: parse_step_def)
  with assms(1) have "parse_loop s = Inl (NoMatchingOpen (instr_ptr s), s)"
    by (simp add: parse_loop_step)
  then show ?thesis by (simp add: parse_def)
qed

lemma parse_NoMatchingOpen:
  assumes "parse s = Inl (NoMatchingOpen i, s')"
  shows "instr_ptr s' = i \<and> i < length (program s') \<and> program s' ! i = CHR '']''"
proof -
  from assms have "parse_loop s = Inl (NoMatchingOpen i, s')"
    by (auto simp: parse_def split: sum.splits if_splits)
  from parse_loop_raises [OF this] show ?thesis by blast
qed

lemma parse_NoMatchingClosed:
  assumes "parse s = Inl (NoMatchingClosed, s')"
  shows "length (program s') \<le> instr_ptr s' \<and> stack s' \<noteq> []"
proof (cases "parse_loop s")
  case (Inl x)
  with assms have "parse_loop s = Inl (NoMatchingClosed, s')" by (simp add: parse_def)
  from parse_loop_raises [OF this] show ?thesis by blast
next
  case (Inr s1)
  with assms have "s1 = s'" "stack s' \<noteq> []"
    by (auto simp: parse_def split: if_splits)
  with Inr parse_loop_returns [of s s'] show ?thesis by blast
qed

section \<open>What each operation leaves alone\<close>

lemma outcome_state_simps [simp]:
  "outcome_state (Inl (e, s)) = s" "outcome_state (Inr s) = s"
  by (simp_all add: outcome_state_def)

lemma incr_data_ptr: "data_ptr (outcome_state (incr n s)) = data_ptr s"
  by (simp add: incr_def Let_def split: sum.splits)

lemma stdout_loop_data_ptr: "data_ptr (outcome_state (stdout_loop k s)) = data_ptr s"
  by (induction k arbitrary: s) (simp_all split: sum.splits)

lemma stdout_data_ptr: "data_ptr (outcome_state (stdout n s)) = data_ptr s"
  by (simp add: stdout_def stdout_loop_data_ptr)

lemma stdin_data_ptr: "data_ptr (outcome_state (stdin n s)) = data_ptr s"
  by (simp add: stdin_def Let_def split: sum.splits prod.splits)

lemma exec_counted_data_ptr:
  "t \<noteq> IncrPtr \<Longrightarrow> data_ptr (outcome_state (exec_counted t n s)) = data_ptr s"
  by (simp add: exec_counted_def incr_data_ptr stdout_data_ptr stdin_data_ptr)

lemma incr_ptr_memory:
  "memory (incr_ptr n s) =
     memory s @ replicate (if data_ptr s + n = int (length (memory s))
                           then length (memory s) div 2 else 0) 0"
  by (simp add: incr_ptr_def Let_def)

lemma incr_ptr_data_ptr: "data_ptr (incr_ptr n s) = data_ptr s + n"
  by (simp add: incr_ptr_def Let_def)

lemma execute_keeps_pointer:
  "(execute fuel prog s = Some r \<longrightarrow> (\<forall>x \<in> set prog. \<not> moves x) \<longrightarrow>
      data_ptr (outcome_state r) = data_ptr s)"
  "(while_loop fuel body s = Some r \<longrightarrow> (\<forall>x \<in> set body. \<not> moves x) \<longrightarrow>
      data_ptr (outcome_state r) = data_ptr s)"
proof (induction fuel prog s and fuel body s arbitrary: r and r rule: execute_while_loop.induct)
  case (1 fuel s)
  show ?case by auto
next
  case (2 fuel body rest s)
  show ?case
  proof (intro impI)
    assume run: "execute fuel (LoopBody body # rest) s = Some r"
      and nm: "\<forall>x \<in> set (LoopBody body # rest). \<not> moves x"
    then have nb: "\<forall>x \<in> set body. \<not> moves x" and nr: "\<forall>x \<in> set rest. \<not> moves x"
      by auto
    show "data_ptr (outcome_state r) = data_ptr s"
    proof (cases "while_loop fuel body s")
      case None
      with run show ?thesis by simp
    next
      case (Some w)
      from "2.IH"(1) Some nb have w: "data_ptr (outcome_state w) = data_ptr s" by blast
      show ?thesis
      proof (cases w)
        case (Inl x)
        with Some run have "r = w" by simp
        with w show ?thesis by simp
      next
        case (Inr s1)
        with Some run have "execute fuel rest s1 = Some r" by simp
        with "2.IH"(2) [OF Some [unfolded Inr]] nr
        have "data_ptr (outcome_state r) = data_ptr s1" by blast
        with w Inr show ?thesis by simp
      qed
    qed
  qed
next
  case (3 fuel t n rest s)
  show ?case
  proof (intro impI)
    assume run: "execute fuel (CountedToken t n # rest) s = Some r"
      and nm: "\<forall>x \<in> set (CountedToken t n # rest). \<not> moves x"
    then have t: "t \<noteq> IncrPtr" and nr: "\<forall>x \<in> set rest. \<not> moves x" by auto
    note c = exec_counted_data_ptr [OF t, of n s]
    show "data_ptr (outcome_state r) = data_ptr s"
    proof (cases "exec_counted t n s")
      case (Inl x)
      with run have "r = Inl x" by simp
      with c Inl show ?thesis by simp
    next
      case (Inr s1)
      with run have "execute fuel rest s1 = Some r" by simp
      with "3.IH" [OF Inr] nr have "data_ptr (outcome_state r) = data_ptr s1" by blast
      with c Inr show ?thesis by simp
    qed
  qed
next
  case (4 body s)
  show ?case by simp
next
  case (5 fuel body s)
  show ?case
  proof (intro impI)
    assume run: "while_loop (Suc fuel) body s = Some r"
      and nb: "\<forall>x \<in> set body. \<not> moves x"
    show "data_ptr (outcome_state r) = data_ptr s"
    proof (cases "getitem (memory s) (data_ptr s)")
      case (Inl e)
      with run show ?thesis by auto
    next
      case (Inr v)
      show ?thesis
      proof (cases "v = 0")
        case True
        with Inr run show ?thesis by auto
      next
        case False
        show ?thesis
        proof (cases "execute fuel body s")
          case None
          with Inr False run show ?thesis by simp
        next
          case (Some w)
          from "5.IH"(1) [OF Inr False] Some nb
          have w: "data_ptr (outcome_state w) = data_ptr s" by blast
          show ?thesis
          proof (cases w)
            case (Inl x)
            with Some Inr False run have "r = w" by simp
            with w show ?thesis by simp
          next
            case s1: (Inr s1)
            with Some Inr False run have "while_loop fuel body s1 = Some r" by simp
            with "5.IH"(2) [OF Inr False Some [unfolded s1]] nb
            have "data_ptr (outcome_state r) = data_ptr s1" by blast
            with w s1 show ?thesis by simp
          qed
        qed
      qed
    qed
  qed
qed

section \<open>A pointer before the start of the tape\<close>

lemma py_index_negative:
  "- int (length xs) \<le> p \<Longrightarrow> p < 0 \<Longrightarrow> py_index xs p = Some (nat (int (length xs) + p))"
  by (simp add: py_index_def Let_def add.commute)

lemma incr_step:
  assumes w: "1 \<le> cell_size s"
    and j: "py_index (memory s) (data_ptr s) = Some j"
  shows "incr c s =
           Inr (s\<lparr>memory := (memory s)[j := (memory s ! j + c) mod 2 ^ nat (cell_size s)]\<rparr>)"
proof -
  from j have "j < length (memory s)" by (rule py_index_less)
  with w j show ?thesis
    by (simp add: incr_def getitem_def setitem_def py_lshift_two Let_def)
qed

lemma stdout_loop_writes:
  "getitem (memory s) (data_ptr s) = Inr v \<Longrightarrow> py_chr v = Inr ch \<Longrightarrow>
     stdout_loop k s = Inr (s\<lparr>sys_stdout := sys_stdout s @ replicate k ch\<rparr>)"
proof (induction k arbitrary: s)
  case 0
  show ?case by simp
next
  case (Suc k)
  let ?s1 = "s\<lparr>sys_stdout := sys_stdout s @ [ch]\<rparr>"
  from Suc.prems have "getitem (memory ?s1) (data_ptr ?s1) = Inr v" by simp
  from Suc.IH [OF this Suc.prems(2)] Suc.prems show ?case
    by (simp add: replicate_app_Cons_same)
qed

text \<open>A loop that counts the current cell down to zero, from any value in range.\<close>

lemma clearing_loop:
  "py_index (memory s) (data_ptr s) = Some j \<Longrightarrow> 1 \<le> cell_size s \<Longrightarrow>
   memory s ! j = int k \<Longrightarrow> int k < 2 ^ nat (cell_size s) \<Longrightarrow>
   while_loop (Suc k) [CountedToken Incr (- 1)] s =
     Some (Inr (s\<lparr>memory := (memory s)[j := 0]\<rparr>))"
proof (induction k arbitrary: s)
  case 0
  then have "getitem (memory s) (data_ptr s) = Inr 0" by (simp add: getitem_def)
  moreover from 0 have "(memory s)[j := 0] = memory s" by (metis list_update_id of_nat_0)
  ultimately show ?case by simp
next
  case (Suc k)
  let ?s1 = "s\<lparr>memory := (memory s)[j := int k]\<rparr>"
  from Suc.prems(1) have jl: "j < length (memory s)" by (rule py_index_less)
  from Suc.prems have g: "getitem (memory s) (data_ptr s) = Inr (int (Suc k))"
    by (simp add: getitem_def)
  have pred: "int (Suc k) + - 1 = int k" by simp
  with Suc.prems(4) have small: "int k < 2 ^ nat (cell_size s)" by linarith
  then have "int k mod 2 ^ nat (cell_size s) = int k"
    by (rule mod_pos_pos_trivial [OF of_nat_0_le_iff])
  with pred have "(int (Suc k) + - 1) mod 2 ^ nat (cell_size s) = int k" by (simp only:)
  with incr_step [OF Suc.prems(2) Suc.prems(1), of "- 1"] Suc.prems(3)
  have "incr (- 1) s = Inr ?s1" by simp
  then have body: "execute (Suc k) [CountedToken Incr (- 1)] s = Some (Inr ?s1)"
    by (simp add: exec_counted_def)
  have "while_loop (Suc k) [CountedToken Incr (- 1)] ?s1 =
          Some (Inr (?s1\<lparr>memory := (memory ?s1)[j := 0]\<rparr>))"
  proof (rule Suc.IH)
    show "py_index (memory ?s1) (data_ptr ?s1) = Some j" using Suc.prems(1) by simp
    show "1 \<le> cell_size ?s1" using Suc.prems(2) by simp
    show "memory ?s1 ! j = int k" using jl by simp
    have "cell_size ?s1 = cell_size s" by simp
    with small show "int k < 2 ^ nat (cell_size ?s1)" by (simp only:)
  qed
  then have rest: "while_loop (Suc k) [CountedToken Incr (- 1)] ?s1 =
          Some (Inr (s\<lparr>memory := (memory s)[j := 0]\<rparr>))"
    by simp
  have "while_loop (Suc (Suc k)) [CountedToken Incr (- 1)] s =
          while_loop (Suc k) [CountedToken Incr (- 1)] ?s1"
    using g body by (simp del: execute.simps while_loop.simps add: while_loop.simps(2) [of "Suc k"])
  with rest show ?case by simp
qed

section \<open>A failed compilation\<close>

lemma tape_kept_refl: "tape_kept s s"
  by (simp add: tape_kept_def)

lemma tape_kept_trans: "tape_kept s s1 \<Longrightarrow> tape_kept s1 s2 \<Longrightarrow> tape_kept s s2"
  by (auto simp: tape_kept_def)

lemma parse_step_keeps: "tape_kept s (outcome_state (parse_step s))"
  unfolding parse_step_def tape_kept_def
  by (auto simp: Let_def split: option.splits sum.splits if_splits prod.splits
           dest!: fold_run_frame fold_run_raises)

lemma parse_loop_keeps: "tape_kept s (outcome_state (parse_loop s))"
proof (induction s rule: parse_loop.induct)
  case (1 s)
  show ?case
  proof (cases "instr_ptr s < length (program s)")
    case False
    then show ?thesis by (simp add: parse_loop_done tape_kept_refl)
  next
    case True
    show ?thesis
    proof (cases "parse_step s")
      case (Inl x)
      with True have "parse_loop s = parse_step s" by (simp add: parse_loop_step)
      then show ?thesis by (simp add: parse_step_keeps)
    next
      case (Inr s1)
      with True have eq: "parse_loop s = parse_loop s1" by (simp add: parse_loop_step)
      from parse_step_keeps [of s] Inr have "tape_kept s s1" by simp
      with "1.IH" [OF True Inr] eq show ?thesis by (auto intro: tape_kept_trans)
    qed
  qed
qed

lemma parse_keeps: "tape_kept s (outcome_state (parse s))"
  using parse_loop_keeps [of s]
  by (cases "parse_loop s") (auto simp: parse_def)


text \<open>
  The scan up to an unmatched \<open>]\<close> does not depend on what follows: it is the scan of
  the program cut before that bracket.
\<close>

lemma fold_run_prefix:
  "fold_run token count s = Inr (c, s1) \<Longrightarrow> instr_ptr s1 < n \<Longrightarrow>
   fold_run token count (s\<lparr>program := take n (program s)\<rparr>) =
     Inr (c, s1\<lparr>program := take n (program s)\<rparr>)"
proof (induction token count s rule: fold_run.induct)
  case (1 token count s)
  let ?t = "s\<lparr>program := take n (program s)\<rparr>"
  note unf = fold_run.simps [of token count s]
  note unt = fold_run.simps [of token count ?t]
  from fold_run_frame [OF "1.prems"(1)] "1.prems"(2) have here: "instr_ptr s < n" by auto
  show ?case
  proof (cases "instr_ptr s < length (program s) - 1")
    case False
    with "1.prems"(1) unf have eq: "c = count" "s1 = s" by simp_all
    from False have "\<not> instr_ptr ?t < length (program ?t) - 1" by simp
    with unt eq show ?thesis by simp
  next
    case True
    show ?thesis
    proof (cases "Token_of (program s ! (instr_ptr s + 1))")
      case None
      with True "1.prems"(1) unf show ?thesis by simp
    next
      case (Some t)
      show ?thesis
      proof (cases "token = t")
        case False
        with True Some "1.prems"(1) unf have eq: "c = count" "s1 = s" by simp_all
        show ?thesis
        proof (cases "instr_ptr ?t < length (program ?t) - 1")
          case in_t: True
          then have "Suc (instr_ptr s) < n" by simp
          then have "program ?t ! (instr_ptr ?t + 1) = program s ! (instr_ptr s + 1)" by simp
          with in_t Some False unt eq show ?thesis by simp
        next
          case out_t: False
          with unt eq show ?thesis by simp
        qed
      next
        case eq: True
        let ?s1 = "s\<lparr>instr_ptr := instr_ptr s + 1\<rparr>"
        let ?c1 = "count + delta (program ?s1 ! instr_ptr ?s1)"
        from True Some eq "1.prems"(1) unf
        have rec: "fold_run token ?c1 ?s1 = Inr (c, s1)" by (simp add: Let_def)
        from fold_run_frame [OF rec] "1.prems"(2) have nx: "Suc (instr_ptr s) < n" by auto
        from "1.IH" [OF True Some eq refl rec "1.prems"(2)]
        have ih: "fold_run token ?c1 (?s1\<lparr>program := take n (program ?s1)\<rparr>) =
                    Inr (c, s1\<lparr>program := take n (program ?s1)\<rparr>)" .
        from nx True have in_t: "instr_ptr ?t < length (program ?t) - 1" by simp
        from nx have same: "program ?t ! (instr_ptr ?t + 1) = program s ! (instr_ptr s + 1)"
          by simp
        let ?t1 = "?t\<lparr>instr_ptr := instr_ptr ?t + 1\<rparr>"
        have t1: "?t1 = ?s1\<lparr>program := take n (program ?s1)\<rparr>" by simp
        from nx have d: "delta (program ?t1 ! instr_ptr ?t1) = delta (program ?s1 ! instr_ptr ?s1)"
          by simp
        from in_t same Some eq unt
        have "fold_run token count ?t =
                fold_run token (count + delta (program ?t1 ! instr_ptr ?t1)) ?t1"
          by (simp add: Let_def)
        also have "\<dots> = fold_run token ?c1 (?s1\<lparr>program := take n (program ?s1)\<rparr>)"
          using d t1 by (simp only:)
        also have "\<dots> = Inr (c, s1\<lparr>program := take n (program ?s1)\<rparr>)" by (rule ih)
        finally show ?thesis by simp
      qed
    qed
  qed
qed


lemma parse_step_prefix:
  assumes st: "parse_step s = Inr s1" and le: "instr_ptr s1 \<le> n"
  shows "parse_step (s\<lparr>program := take n (program s)\<rparr>) =
           Inr (s1\<lparr>program := take n (program s)\<rparr>)"
proof -
  let ?t = "s\<lparr>program := take n (program s)\<rparr>"
  from parse_step_advances [OF st] le have here: "instr_ptr s < n" by simp
  then have ch: "program ?t ! instr_ptr ?t = program s ! instr_ptr s" by simp
  from st obtain token where tok: "Token_of (program s ! instr_ptr s) = Some token"
    by (cases "Token_of (program s ! instr_ptr s)") (simp_all add: parse_step_def)
  show ?thesis
  proof (cases "token = LoopStart \<or> token = LoopEnd")
    case True
    with st tok ch show ?thesis
      by (auto simp: parse_step_def Let_def split: if_splits)
  next
    case False
    with st tok obtain c s2 where
      fr: "fold_run token (delta (program s ! instr_ptr s)) s = Inr (c, s2)"
      by (cases "fold_run token (delta (program s ! instr_ptr s)) s")
         (auto simp: parse_step_def Let_def)
    from fold_run_frame [OF fr] obtain i where s2: "s2 = s\<lparr>instr_ptr := i\<rparr>" by blast
    from False tok fr st have adv: "instr_ptr s1 = instr_ptr s2 + 1"
      by (auto simp: parse_step_def Let_def split: if_splits)
    with le have "instr_ptr s2 < n" by simp
    from fold_run_prefix [OF fr this]
    have frt: "fold_run token (delta (program ?t ! instr_ptr ?t)) ?t =
                 Inr (c, s2\<lparr>program := take n (program s)\<rparr>)"
      using ch by simp
    have tokt: "Token_of (program ?t ! instr_ptr ?t) = Some token" using tok ch by simp
    from False tok fr st s2 have s1: "s1 =
        (if stack s2 \<noteq> []
         then s2\<lparr>stack := butlast (stack s2) @ [last (stack s2) @ [CountedToken token c]],
                 instr_ptr := instr_ptr s2 + 1\<rparr>
         else s2\<lparr>c_tokens := c_tokens s2 @ [CountedToken token c],
                 instr_ptr := instr_ptr s2 + 1\<rparr>)"
      by (auto simp: parse_step_def Let_def split: if_splits)
    from False tokt frt have "parse_step ?t =
        Inr (if stack s2 \<noteq> []
         then s2\<lparr>program := take n (program s),
                 stack := butlast (stack s2) @ [last (stack s2) @ [CountedToken token c]],
                 instr_ptr := instr_ptr s2 + 1\<rparr>
         else s2\<lparr>program := take n (program s),
                 c_tokens := c_tokens s2 @ [CountedToken token c],
                 instr_ptr := instr_ptr s2 + 1\<rparr>)"
      by (simp add: parse_step_def Let_def)
    with s1 show ?thesis by simp
  qed
qed

lemma parse_loop_NoMatchingOpen_later:
  "parse_loop s = Inl (NoMatchingOpen i, s') \<Longrightarrow> instr_ptr s \<le> i"
proof (induction s rule: parse_loop.induct)
  case (1 s)
  show ?case
  proof (cases "instr_ptr s < length (program s)")
    case False
    with "1.prems" show ?thesis by (simp add: parse_loop_done)
  next
    case True
    show ?thesis
    proof (cases "parse_step s")
      case (Inl x)
      with True "1.prems" have "parse_step s = Inl (NoMatchingOpen i, s')"
        by (simp add: parse_loop_step)
      from parse_step_raises [OF this] show ?thesis by blast
    next
      case (Inr s1)
      with True "1.prems" have "parse_loop s1 = Inl (NoMatchingOpen i, s')"
        by (simp add: parse_loop_step)
      from "1.IH" [OF True Inr this] parse_step_advances [OF Inr] show ?thesis by linarith
    qed
  qed
qed

lemma parse_loop_prefix:
  "parse_loop s = Inl (NoMatchingOpen i, s') \<Longrightarrow>
   parse_loop (s\<lparr>program := take i (program s)\<rparr>) = Inr (s'\<lparr>program := take i (program s)\<rparr>)"
proof (induction s rule: parse_loop.induct)
  case (1 s)
  let ?t = "s\<lparr>program := take i (program s)\<rparr>"
  show ?case
  proof (cases "instr_ptr s < length (program s)")
    case False
    with "1.prems" show ?thesis by (simp add: parse_loop_done)
  next
    case True
    show ?thesis
    proof (cases "parse_step s")
      case (Inl x)
      with True "1.prems" have "parse_step s = Inl (NoMatchingOpen i, s')"
        by (simp add: parse_loop_step)
      from parse_step_raises [OF this] have "s' = s" "i = instr_ptr s" by blast+
      moreover from this have "\<not> instr_ptr ?t < length (program ?t)" by simp
      ultimately show ?thesis by (simp add: parse_loop_done)
    next
      case (Inr s1)
      with True "1.prems" have rest: "parse_loop s1 = Inl (NoMatchingOpen i, s')"
        by (simp add: parse_loop_step)
      from parse_step_advances [OF Inr] have p1: "program s1 = program s"
        and adv: "instr_ptr s < instr_ptr s1" by blast+
      from parse_loop_NoMatchingOpen_later [OF rest] have le: "instr_ptr s1 \<le> i" .
      from "1.IH" [OF True Inr rest] p1
      have ih: "parse_loop (s1\<lparr>program := take i (program s)\<rparr>) =
                  Inr (s'\<lparr>program := take i (program s)\<rparr>)"
        by simp
      from adv le True have "instr_ptr ?t < length (program ?t)" by simp
      then have "parse_loop ?t =
          (case parse_step ?t of Inl e \<Rightarrow> Inl e | Inr s2 \<Rightarrow> parse_loop s2)"
        by (rule parse_loop_step)
      also from parse_step_prefix [OF Inr le]
      have "\<dots> = parse_loop (s1\<lparr>program := take i (program s)\<rparr>)" by simp
      finally show ?thesis using ih by simp
    qed
  qed
qed

section \<open>The range of the cells\<close>

lemma incr_ptr_cell_size: "cell_size (incr_ptr n s) = cell_size s"
  by (simp add: incr_ptr_def Let_def)

lemma incr_ptr_in_range:
  assumes "cells_in_range s"
  shows "cells_in_range (incr_ptr n s)"
proof -
  obtain k where m: "memory (incr_ptr n s) = memory s @ replicate k 0"
    using incr_ptr_memory [of n s] by blast
  have "v = 0" if "v \<in> set (replicate k (0::int))" for v
    using that by (simp split: if_splits)
  with assms m show ?thesis
    unfolding cells_in_range_def incr_ptr_cell_size by auto
qed

lemma incr_in_range:
  assumes w: "1 \<le> cell_size s" and r: "cells_in_range s"
  shows "cells_in_range (outcome_state (incr n s))"
proof (cases "py_index (memory s) (data_ptr s)")
  case None
  then have "incr n s = Inl (IndexError, s)" by (simp add: incr_def getitem_def)
  then have "outcome_state (incr n s) = s" by simp
  with r show ?thesis by simp
next
  case (Some j)
  define u where "u = (memory s ! j + n) mod 2 ^ nat (cell_size s)"
  have u: "0 \<le> u \<and> u < 2 ^ nat (cell_size s)" by (simp add: u_def)
  from incr_step [OF w Some, of n]
  have st: "outcome_state (incr n s) = s\<lparr>memory := (memory s)[j := u]\<rparr>"
    by (simp add: u_def)
  have "0 \<le> v \<and> v < 2 ^ nat (cell_size s)" if "v \<in> set ((memory s)[j := u])" for v
  proof -
    from that set_update_subset_insert [of "memory s" j u]
    have "v = u \<or> v \<in> set (memory s)" by blast
    with u r show ?thesis unfolding cells_in_range_def by blast
  qed
  then show ?thesis unfolding st cells_in_range_def by simp
qed

lemma stdout_loop_tape:
  "memory (outcome_state (stdout_loop k s)) = memory s
   \<and> cell_size (outcome_state (stdout_loop k s)) = cell_size s"
  by (induction k arbitrary: s) (simp_all split: sum.splits)

lemma stdout_in_range: "cells_in_range s \<Longrightarrow> cells_in_range (outcome_state (stdout n s))"
  by (simp add: cells_in_range_def stdout_def stdout_loop_tape)

lemma other_operations_keep_range:
  assumes "1 \<le> cell_size s" and "cells_in_range s" and "t \<noteq> StdIn"
  shows "cells_in_range (outcome_state (exec_counted t n s))"
  using assms
  by (simp add: exec_counted_def incr_ptr_in_range incr_in_range stdout_in_range)

section \<open>The claims\<close>

text \<open>
  C6. A ModifyCell node with signed count \<open>c\<close> sets the current cell, of value \<open>v\<close>, to
  \<open>(v + c) mod 2^W\<close>, and this value is never negative and below \<open>2^W\<close>. The
  current cell is the one Python's indexing selects for the pointer; \<open>W\<close> is at least
  1, as it is for every interpreter that was constructed. For \<open>W = 8\<close>, 255
  incremented once is 0 and 0 decremented once is 255 (the witness).
\<close>

theorem incr_wraps:
  assumes w: "1 \<le> cell_size s"
    and j: "py_index (memory s) (data_ptr s) = Some j"
  shows "incr c s =
           Inr (s\<lparr>memory := (memory s)[j := (memory s ! j + c) mod 2 ^ nat (cell_size s)]\<rparr>)
         \<and> 0 \<le> (memory s ! j + c) mod 2 ^ nat (cell_size s)
         \<and> (memory s ! j + c) mod 2 ^ nat (cell_size s) < 2 ^ nat (cell_size s)"
proof -
  from j have "j < length (memory s)" by (rule py_index_less)
  with w j have "incr c s =
      Inr (s\<lparr>memory := (memory s)[j := (memory s ! j + c) mod 2 ^ nat (cell_size s)]\<rparr>)"
    by (simp add: incr_def getitem_def setitem_def py_lshift_two Let_def)
  moreover have "(0::int) < 2 ^ nat (cell_size s)" by simp
  ultimately show ?thesis by simp
qed

theorem incr_wraps_witness:
  "incr 1 (machine 8 [255] 0 []) = Inr (machine 8 [0] 0 [])
   \<and> incr (- 1) (machine 8 [0] 0 []) = Inr (machine 8 [255] 0 [])"
proof -
  have a: "py_index (memory (machine 8 [255] 0 [])) (data_ptr (machine 8 [255] 0 [])) = Some 0"
    by (simp add: machine_def py_index_def)
  have b: "py_index (memory (machine 8 [0] 0 [])) (data_ptr (machine 8 [0] 0 [])) = Some 0"
    by (simp add: machine_def py_index_def)
  have w1: "1 \<le> cell_size (machine 8 [255] 0 [])" by (simp add: machine_def)
  have w2: "1 \<le> cell_size (machine 8 [0] 0 [])" by (simp add: machine_def)
  from incr_wraps [OF w1 a, of 1] incr_wraps [OF w2 b, of "- 1"]
  show ?thesis by (simp add: machine_def)
qed

text \<open>
  C2. A source without brackets that is a non-empty run of \<open>+\<close> and \<open>-\<close>, or of \<open>>\<close>
  and \<open><\<close>, compiles to exactly one counted node of that kind, whose count is the
  sum of the increments of its characters (\<open>+1\<close> for \<open>+\<close> and \<open>>\<close>, \<open>-1\<close> for \<open>-\<close>
  and \<open><\<close>). The witness has \<open>+-+\<close> as one node of count 1 and \<open>+-\<close> as one node
  of count 0.
\<close>

theorem fold_one_node:
  assumes "1 \<le> c" and "src \<noteq> []"
  shows "(set src \<subseteq> {CHR ''+'', CHR ''-''} \<longrightarrow>
            compile src c m u inp = Inr [CountedToken Incr (sum_list (map delta src))])
       \<and> (set src \<subseteq> {CHR ''>'', CHR ''<''} \<longrightarrow>
            compile src c m u inp = Inr [CountedToken IncrPtr (sum_list (map delta src))])"
proof (intro conjI impI)
  from assms(2) have hd_in: "hd src \<in> set src" by simp
  {
    assume "set src \<subseteq> {CHR ''+'', CHR ''-''}"
    then have "\<forall>ch \<in> set src. ch = CHR ''+'' \<or> ch = CHR ''-''" by blast
    then have all: "\<forall>ch \<in> set src. Token_of ch = Some Incr"
      using Token_of_chars(3,4) by metis
    with hd_in have "Token_of (hd src) = Some Incr" by blast
    from compile_run [OF assms this _ _ all]
    show "compile src c m u inp = Inr [CountedToken Incr (sum_list (map delta src))]"
      by simp
  }
  {
    assume "set src \<subseteq> {CHR ''>'', CHR ''<''}"
    then have "\<forall>ch \<in> set src. ch = CHR ''>'' \<or> ch = CHR ''<''" by blast
    then have all: "\<forall>ch \<in> set src. Token_of ch = Some IncrPtr"
      using Token_of_chars(1,2) by metis
    with hd_in have "Token_of (hd src) = Some IncrPtr" by blast
    from compile_run [OF assms this _ _ all]
    show "compile src c m u inp = Inr [CountedToken IncrPtr (sum_list (map delta src))]"
      by simp
  }
qed

theorem fold_one_node_witness:
  "compile ''+-+'' 8 30000 ''ms'' [] = Inr [CountedToken Incr 1]
   \<and> compile ''+-'' 8 30000 ''ms'' [] = Inr [CountedToken Incr 0]
   \<and> compile ''<<>'' 8 30000 ''ms'' [] = Inr [CountedToken IncrPtr (- 1)]"
  using fold_one_node [of 8 "''+-+''" 30000 "''ms''" "[]"]
        fold_one_node [of 8 "''+-''" 30000 "''ms''" "[]"]
        fold_one_node [of 8 "''<<>''" 30000 "''ms''" "[]"]
  by (simp add: delta_def)

text \<open>
  C1. The source \<open>++>+++[<+>-]\<close> with cell width 8 on a tape of at least two cells,
  all zero: the interpreter can be constructed, and its run returns (some amount of
  fuel suffices and no exception is raised) with cell 0 equal to 5, cell 1 equal to 0,
  every other cell still 0, and the pointer at index 1.
\<close>

theorem transfer_loop:
  assumes "2 \<le> m_size"
  shows "\<exists>fuel s0 s.
           init ''++>+++[<+>-]'' 8 m_size units inp = Inr s0
         \<and> run fuel s0 = Some (Inr s)
         \<and> memory s = 5 # 0 # replicate (nat m_size - 2) 0
         \<and> data_ptr s = 1"
proof -
  define k where "k = nat m_size - 2"
  from assms have k: "nat m_size = Suc (Suc k)" by (simp add: k_def)
  then have mem: "replicate (nat m_size) (0::int) = 0 # 0 # replicate k 0" by simp
  let ?prog = "[CountedToken Incr 2, CountedToken IncrPtr 1, CountedToken Incr 3,
                LoopBody [CountedToken IncrPtr (- 1), CountedToken Incr 1,
                          CountedToken IncrPtr 1, CountedToken Incr (- 1)]]"
  let ?s0 = "\<lparr> stack = [], c_tokens = [], data_ptr = 0, instr_ptr = 0,
                program = ''++>+++[<+>-]'', cell_size = 8, memory = 0 # 0 # replicate k 0,
                max_int = 256, runtime_units = units, sys_stdin = inp,
                sys_stdout = [] \<rparr>"
  let ?s1 = "\<lparr> stack = [], c_tokens = ?prog, data_ptr = 0, instr_ptr = 12,
                program = ''++>+++[<+>-]'', cell_size = 8, memory = 0 # 0 # replicate k 0,
                max_int = 256, runtime_units = units, sys_stdin = inp,
                sys_stdout = [] \<rparr>"
  let ?s2 = "\<lparr> stack = [], c_tokens = ?prog, data_ptr = 1, instr_ptr = 12,
                program = ''++>+++[<+>-]'', cell_size = 8, memory = 5 # 0 # replicate k 0,
                max_int = 256, runtime_units = units, sys_stdin = inp,
                sys_stdout = [] \<rparr>"
  have i: "init ''++>+++[<+>-]'' 8 m_size units inp = Inr ?s0"
    by (simp add: init_ok mem)
  have p: "parse ?s0 = Inr ?s1" by (rule transfer_parse)
  have e: "execute (Suc (Suc (Suc (Suc 0)))) ?prog ?s1 = Some (Inr ?s2)"
    by (rule transfer_execute)
  have "c_tokens ?s1 = ?prog" by simp
  with p e have r: "run (Suc (Suc (Suc (Suc 0)))) ?s0 = Some (Inr ?s2)"
    by (simp only: run_def sum.case)
  have g: "memory ?s2 = 5 # 0 # replicate (nat m_size - 2) 0" "data_ptr ?s2 = 1"
    by (simp_all add: k_def)
  from i r g show ?thesis by blast
qed

theorem transfer_loop_witness:
  "\<exists>fuel s0 s.
           init ''++>+++[<+>-]'' 8 2 ''ms'' [] = Inr s0
         \<and> run fuel s0 = Some (Inr s)
         \<and> memory s = [5, 0]
         \<and> data_ptr s = 1"
  using transfer_loop [of 2 "''ms''" "[]"] by simp

text \<open>
  C7. \<open>[]\<close>, \<open>[[]]\<close> and \<open>[][]\<close> compile to one empty loop, a loop holding an empty
  loop, and two empty loops side by side; \<open>]\<close>, \<open>[\<close> and \<open>[[]\<close> fail with the script
  error of \<open>parse\<close>. A \<open>]\<close> met with no loop open fails at once: the exception
  carries the position and the interpreter is left exactly as it was on reaching that
  character, so whenever this error is raised the instruction pointer still stands on
  the offending \<open>]\<close> inside the program. The error for an unmatched \<open>[\<close> is raised
  only with the instruction pointer past the end of the program, after the scan.
\<close>

theorem bracket_matching:
  assumes "1 \<le> c"
  shows "compile ''[]'' c m u inp = Inr [LoopBody []]
       \<and> compile ''[[]]'' c m u inp = Inr [LoopBody [LoopBody []]]
       \<and> compile ''[][]'' c m u inp = Inr [LoopBody [], LoopBody []]
       \<and> compile '']'' c m u inp = Inl (NoMatchingOpen 0)
       \<and> compile ''['' c m u inp = Inl NoMatchingClosed
       \<and> compile ''[[]'' c m u inp = Inl NoMatchingClosed
       \<and> (\<forall>s. instr_ptr s < length (program s) \<and> program s ! instr_ptr s = CHR '']''
               \<and> stack s = [] \<longrightarrow>
             parse s = Inl (NoMatchingOpen (instr_ptr s), s))
       \<and> (\<forall>s i s'. parse s = Inl (NoMatchingOpen i, s') \<longrightarrow>
             instr_ptr s' = i \<and> i < length (program s') \<and> program s' ! i = CHR '']'')
       \<and> (\<forall>s s'. parse s = Inl (NoMatchingClosed, s') \<longrightarrow>
             length (program s') \<le> instr_ptr s' \<and> stack s' \<noteq> [])"
proof -
  note ex = compile_brackets [OF assms]
  have a: "\<forall>s. instr_ptr s < length (program s) \<and> program s ! instr_ptr s = CHR '']''
               \<and> stack s = [] \<longrightarrow>
             parse s = Inl (NoMatchingOpen (instr_ptr s), s)"
    using parse_close_unmatched by blast
  have b: "\<forall>s i s'. parse s = Inl (NoMatchingOpen i, s') \<longrightarrow>
             instr_ptr s' = i \<and> i < length (program s') \<and> program s' ! i = CHR '']''"
    using parse_NoMatchingOpen by blast
  have c: "\<forall>s s'. parse s = Inl (NoMatchingClosed, s') \<longrightarrow>
             length (program s') \<le> instr_ptr s' \<and> stack s' \<noteq> []"
    using parse_NoMatchingClosed by blast
  show ?thesis
    by (intro conjI) (rule ex a b c)+
qed


theorem bracket_matching_witness:
  "compile ''[]'' 8 30000 ''ms'' [] = Inr [LoopBody []]
   \<and> compile ''[[]]'' 8 30000 ''ms'' [] = Inr [LoopBody [LoopBody []]]
   \<and> compile ''[][]'' 8 30000 ''ms'' [] = Inr [LoopBody [], LoopBody []]
   \<and> compile '']'' 8 30000 ''ms'' [] = Inl (NoMatchingOpen 0)
   \<and> compile ''['' 8 30000 ''ms'' [] = Inl NoMatchingClosed
   \<and> compile ''[[]'' 8 30000 ''ms'' [] = Inl NoMatchingClosed
   \<and> parse ((machine 8 [0] 0 [])\<lparr>program := ''+]['', instr_ptr := 1\<rparr>) =
       Inl (NoMatchingOpen 1, (machine 8 [0] 0 [])\<lparr>program := ''+]['', instr_ptr := 1\<rparr>)
   \<and> parse ((machine 8 [0] 0 [])\<lparr>program := ''[+''\<rparr>) =
       Inl (NoMatchingClosed,
            (machine 8 [0] 0 [])\<lparr>program := ''[+'', instr_ptr := 2,
                                  stack := [[CountedToken Incr 1]]\<rparr>)"
proof -
  have le: "(1::int) \<le> 8" by simp
  note t = bracket_matching [OF le, of 30000 "''ms''" "[]"]
  let ?s = "(machine 8 [0] 0 [])\<lparr>program := ''+]['', instr_ptr := 1\<rparr>"
  have pre: "instr_ptr ?s < length (program ?s) \<and> program ?s ! instr_ptr ?s = CHR '']''
             \<and> stack ?s = []"
    by (simp add: machine_def)
  from t have "\<forall>s. instr_ptr s < length (program s) \<and> program s ! instr_ptr s = CHR '']''
               \<and> stack s = [] \<longrightarrow>
             parse s = Inl (NoMatchingOpen (instr_ptr s), s)"
    by blast
  with pre have "parse ?s = Inl (NoMatchingOpen (instr_ptr ?s), ?s)" by blast
  then have imm: "parse ?s = Inl (NoMatchingOpen 1, ?s)" by simp
  have late: "parse ((machine 8 [0] 0 [])\<lparr>program := ''[+''\<rparr>) =
       Inl (NoMatchingClosed,
            (machine 8 [0] 0 [])\<lparr>program := ''[+'', instr_ptr := 2,
                                  stack := [[CountedToken Incr 1]]\<rparr>)"
    by (simp add: machine_def parse_def parse_loop.simps parse_step_def fold_run.simps
                  Token_of_chars delta_def Let_def)
  from t imm late show ?thesis by blast
qed

text \<open>
  C9. Only pointer movements change the tape pointer. A counted node of any other kind
  leaves it as it was, whether the operation returns or raises; so does the execution
  of any list of nodes that holds no movement at any depth. The test of a loop's
  condition changes nothing at all: with a zero cell the loop returns the state
  unchanged, with an index error the exception carries it unchanged, and otherwise the
  body starts from it. A movement node adds its count to the pointer, never fails, and
  leaves every existing cell as it was: the new tape is the old one followed by zero
  cells.
\<close>

theorem pointer_frame:
  "(t \<noteq> IncrPtr \<longrightarrow> data_ptr (outcome_state (exec_counted t n s)) = data_ptr s)
   \<and> ((\<forall>x \<in> set prog. \<not> moves x) \<and> execute fuel prog s = Some r \<longrightarrow>
         data_ptr (outcome_state r) = data_ptr s)
   \<and> (getitem (memory s) (data_ptr s) = Inr 0 \<longrightarrow>
         while_loop (Suc fuel) body s = Some (Inr s))
   \<and> (getitem (memory s) (data_ptr s) = Inl e \<longrightarrow>
         while_loop (Suc fuel) body s = Some (Inl (e, s)))
   \<and> (getitem (memory s) (data_ptr s) = Inr v \<and> v \<noteq> 0 \<longrightarrow>
         while_loop (Suc fuel) body s =
           (case execute fuel body s of
              Some (Inr s1) \<Rightarrow> while_loop fuel body s1
            | r \<Rightarrow> r))
   \<and> exec_counted IncrPtr n s = Inr (incr_ptr n s)
   \<and> data_ptr (incr_ptr n s) = data_ptr s + n
   \<and> (\<exists>k. memory (incr_ptr n s) = memory s @ replicate k 0)
   \<and> (\<forall>i < length (memory s). memory (incr_ptr n s) ! i = memory s ! i)"
proof (intro conjI)
  show "t \<noteq> IncrPtr \<longrightarrow> data_ptr (outcome_state (exec_counted t n s)) = data_ptr s"
    by (simp add: exec_counted_data_ptr)
  show "(\<forall>x \<in> set prog. \<not> moves x) \<and> execute fuel prog s = Some r \<longrightarrow>
         data_ptr (outcome_state r) = data_ptr s"
    using execute_keeps_pointer(1) [of fuel prog s r] by blast
  show "getitem (memory s) (data_ptr s) = Inr 0 \<longrightarrow>
         while_loop (Suc fuel) body s = Some (Inr s)"
    by simp
  show "getitem (memory s) (data_ptr s) = Inl e \<longrightarrow>
         while_loop (Suc fuel) body s = Some (Inl (e, s))"
    by simp
  show "getitem (memory s) (data_ptr s) = Inr v \<and> v \<noteq> 0 \<longrightarrow>
         while_loop (Suc fuel) body s =
           (case execute fuel body s of
              Some (Inr s1) \<Rightarrow> while_loop fuel body s1
            | r \<Rightarrow> r)"
    by simp
  show "exec_counted IncrPtr n s = Inr (incr_ptr n s)"
    by (simp add: exec_counted_def)
  show "data_ptr (incr_ptr n s) = data_ptr s + n"
    by (rule incr_ptr_data_ptr)
  show "\<exists>k. memory (incr_ptr n s) = memory s @ replicate k 0"
    using incr_ptr_memory [of n s] by blast
  show "\<forall>i < length (memory s). memory (incr_ptr n s) ! i = memory s ! i"
    by (simp add: incr_ptr_memory nth_append)
qed

theorem pointer_frame_witness:
  "data_ptr (outcome_state (exec_counted Incr 1 (machine 8 [0, 0] 1 []))) = 1
   \<and> data_ptr (outcome_state (exec_counted StdIn 1 (machine 8 [0, 0] 1 [97]))) = 1
   \<and> data_ptr (outcome_state (exec_counted StdOut 1 (machine 8 [0, 0] 1 []))) = 1
   \<and> execute (Suc (Suc 0)) [CountedToken Incr 1, LoopBody [CountedToken Incr (- 1)]]
        (machine 8 [0, 0] 1 []) = Some (Inr (machine 8 [0, 0] 1 []))
   \<and> while_loop (Suc 0) [CountedToken Incr 1] (machine 8 [0, 0] 1 []) =
        Some (Inr (machine 8 [0, 0] 1 []))
   \<and> memory (incr_ptr 1 (machine 8 [7, 9] 1 [])) = [7, 9, 0]
   \<and> data_ptr (incr_ptr 1 (machine 8 [7, 9] 1 [])) = 2"
proof -
  have a: "data_ptr (outcome_state (exec_counted Incr 1 (machine 8 [0, 0] 1 []))) = 1"
    using pointer_frame [of Incr 1 "machine 8 [0, 0] 1 []"] by (simp add: machine_def)
  have b: "data_ptr (outcome_state (exec_counted StdIn 1 (machine 8 [0, 0] 1 [97]))) = 1"
    using pointer_frame [of StdIn 1 "machine 8 [0, 0] 1 [97]"] by (simp add: machine_def)
  have c: "data_ptr (outcome_state (exec_counted StdOut 1 (machine 8 [0, 0] 1 []))) = 1"
    using pointer_frame [of StdOut 1 "machine 8 [0, 0] 1 []"] by (simp add: machine_def)
  have d: "execute (Suc (Suc 0)) [CountedToken Incr 1, LoopBody [CountedToken Incr (- 1)]]
        (machine 8 [0, 0] 1 []) = Some (Inr (machine 8 [0, 0] 1 []))"
    by (simp add: machine_def exec_counted_def incr_def getitem_def setitem_def py_index_def
                  py_lshift_def Let_def)
  have e: "while_loop (Suc 0) [CountedToken Incr 1] (machine 8 [0, 0] 1 []) =
        Some (Inr (machine 8 [0, 0] 1 []))"
    by (simp add: machine_def getitem_def py_index_def)
  have f: "memory (incr_ptr 1 (machine 8 [7, 9] 1 [])) = [7, 9, 0]"
      "data_ptr (incr_ptr 1 (machine 8 [7, 9] 1 [])) = 2"
    by (simp_all add: machine_def incr_ptr_def Let_def)
  from a b c d e f show ?thesis by blast
qed

text \<open>
  C10. A pointer movement that leaves the pointer at a negative index \<open>p\<close> with
  \<open>-L \<le> p \<le> -1\<close>, \<open>L\<close> the length of the tape, raises nothing and does not grow the
  tape. With the pointer there, every access is to the cell at index \<open>L + p\<close>: a
  cell modification replaces it by its sum with the count modulo \<open>2^W\<close>, an output
  writes its character (for a code that is a character and no surrogate), an input
  that reads one character stores the code of that character in it, and a loop tests
  it: with that cell zero the loop node returns the state as it is, and the loop that
  decrements the current cell runs until that cell is zero, leaving every other cell
  as it was.
\<close>

theorem negative_pointer_wraps:
  assumes lo: "- int (length (memory s)) \<le> data_ptr s + n"
    and hi: "data_ptr s + n < 0"
    and s': "s' = incr_ptr n s"
    and j: "j = nat (int (length (memory s)) + (data_ptr s + n))"
  shows "exec_counted IncrPtr n s = Inr s'
       \<and> memory s' = memory s
       \<and> data_ptr s' = data_ptr s + n
       \<and> j < length (memory s)
       \<and> getitem (memory s') (data_ptr s') = Inr (memory s ! j)
       \<and> (1 \<le> cell_size s \<longrightarrow>
            incr c s' = Inr (s'\<lparr>memory := (memory s)[j := (memory s ! j + c) mod 2 ^ nat (cell_size s)]\<rparr>))
       \<and> (0 \<le> memory s ! j \<and> memory s ! j < 1114112
            \<and> \<not> (55296 \<le> memory s ! j \<and> memory s ! j \<le> 57343) \<longrightarrow>
            stdout k s' = Inr (s'\<lparr>sys_stdout := sys_stdout s @ replicate (nat k) (nat (memory s ! j))\<rparr>))
       \<and> (py_read m (sys_stdin s) = ([x], rest) \<longrightarrow>
            stdin m s' = Inr (s'\<lparr>sys_stdin := rest, memory := (memory s)[j := int x]\<rparr>))
       \<and> while_loop (Suc fuel) body s' =
            (if memory s ! j \<noteq> 0
             then (case execute fuel body s' of
                     Some (Inr s1) \<Rightarrow> while_loop fuel body s1
                   | r \<Rightarrow> r)
             else Some (Inr s'))
       \<and> (memory s ! j = 0 \<longrightarrow>
            execute fuel [LoopBody body] s' = (case fuel of 0 \<Rightarrow> None | Suc f \<Rightarrow> Some (Inr s')))
       \<and> (1 \<le> cell_size s \<and> 0 \<le> memory s ! j \<and> memory s ! j < 2 ^ nat (cell_size s) \<longrightarrow>
            while_loop (Suc (nat (memory s ! j))) [CountedToken Incr (- 1)] s' =
              Some (Inr (s'\<lparr>memory := (memory s)[j := 0]\<rparr>))
            \<and> execute (Suc (nat (memory s ! j))) [LoopBody [CountedToken Incr (- 1)]] s' =
              Some (Inr (s'\<lparr>memory := (memory s)[j := 0]\<rparr>)))"
proof -
  from hi have ne: "data_ptr s + n \<noteq> int (length (memory s))" by simp
  with s' have st: "s' = s\<lparr>data_ptr := data_ptr s + n\<rparr>"
    by (simp add: incr_ptr_def Let_def)
  then have f: "memory s' = memory s" "data_ptr s' = data_ptr s + n"
    "cell_size s' = cell_size s" "sys_stdout s' = sys_stdout s" "sys_stdin s' = sys_stdin s"
    by simp_all
  from py_index_negative [OF lo hi] j f
  have idx: "py_index (memory s') (data_ptr s') = Some j" by simp
  then have jl: "j < length (memory s)" using f py_index_less by metis
  from idx f have g: "getitem (memory s') (data_ptr s') = Inr (memory s ! j)"
    by (simp add: getitem_def)
  have a: "exec_counted IncrPtr n s = Inr s'" using s' by (simp add: exec_counted_def)
  have i: "incr c s' = Inr (s'\<lparr>memory := (memory s)[j := (memory s ! j + c) mod 2 ^ nat (cell_size s)]\<rparr>)"
    if "1 \<le> cell_size s"
  proof -
    from that f have "1 \<le> cell_size s'" by simp
    from incr_step [OF this idx, of c] f show ?thesis by simp
  qed
  have out: "stdout k s' = Inr (s'\<lparr>sys_stdout := sys_stdout s @ replicate (nat k) (nat (memory s ! j))\<rparr>)"
    if "0 \<le> memory s ! j \<and> memory s ! j < 1114112
        \<and> \<not> (55296 \<le> memory s ! j \<and> memory s ! j \<le> 57343)"
  proof -
    from that have "py_chr (memory s ! j) = Inr (nat (memory s ! j))" by (simp add: py_chr_def)
    from stdout_loop_writes [OF g this, of "nat k"] f show ?thesis by (simp add: stdout_def)
  qed
  have inp: "stdin m s' = Inr (s'\<lparr>sys_stdin := rest, memory := (memory s)[j := int x]\<rparr>)"
    if "py_read m (sys_stdin s) = ([x], rest)"
    using that f idx by (simp add: stdin_def py_ord_def setitem_def)
  have w: "while_loop (Suc fuel) body s' =
            (if memory s ! j \<noteq> 0
             then (case execute fuel body s' of
                     Some (Inr s1) \<Rightarrow> while_loop fuel body s1
                   | r \<Rightarrow> r)
             else Some (Inr s'))"
    using g by simp
  have z: "execute fuel [LoopBody body] s' = (case fuel of 0 \<Rightarrow> None | Suc f \<Rightarrow> Some (Inr s'))"
    if "memory s ! j = 0"
    using that g by (cases fuel) simp_all
  have cl: "while_loop (Suc (nat (memory s ! j))) [CountedToken Incr (- 1)] s' =
              Some (Inr (s'\<lparr>memory := (memory s)[j := 0]\<rparr>))
            \<and> execute (Suc (nat (memory s ! j))) [LoopBody [CountedToken Incr (- 1)]] s' =
              Some (Inr (s'\<lparr>memory := (memory s)[j := 0]\<rparr>))"
    if h: "1 \<le> cell_size s \<and> 0 \<le> memory s ! j \<and> memory s ! j < 2 ^ nat (cell_size s)"
  proof -
    from h f have c1: "1 \<le> cell_size s'" by simp
    from h f have c2: "memory s' ! j = int (nat (memory s ! j))" by simp
    from h f have c3: "int (nat (memory s ! j)) < 2 ^ nat (cell_size s')" by simp
    from clearing_loop [OF idx c1 c2 c3] f
    have l: "while_loop (Suc (nat (memory s ! j))) [CountedToken Incr (- 1)] s' =
              Some (Inr (s'\<lparr>memory := (memory s)[j := 0]\<rparr>))"
      by simp
    then have "execute (Suc (nat (memory s ! j))) [LoopBody [CountedToken Incr (- 1)]] s' =
              Some (Inr (s'\<lparr>memory := (memory s)[j := 0]\<rparr>))"
      by (simp del: while_loop.simps)
    with l show ?thesis by blast
  qed
  from a f(1,2) jl g i out inp w z cl show ?thesis by blast
qed


theorem negative_pointer_wraps_witness:
  "exec_counted IncrPtr (- 1) (machine 8 [1, 2, 3] 0 [97]) = Inr (machine 8 [1, 2, 3] (- 1) [97])
   \<and> getitem (memory (machine 8 [1, 2, 3] (- 1) [97])) (data_ptr (machine 8 [1, 2, 3] (- 1) [97]))
       = Inr 3
   \<and> incr 5 (machine 8 [1, 2, 3] (- 1) [97]) = Inr (machine 8 [1, 2, 8] (- 1) [97])
   \<and> stdout 2 (machine 8 [1, 2, 3] (- 1) [97]) =
       Inr ((machine 8 [1, 2, 3] (- 1) [97])\<lparr>sys_stdout := [3, 3]\<rparr>)
   \<and> stdin 1 (machine 8 [1, 2, 3] (- 1) [97]) = Inr (machine 8 [1, 2, 97] (- 1) [])
   \<and> execute 4 [LoopBody [CountedToken Incr (- 1)]] (machine 8 [1, 2, 3] (- 1) [97]) =
       Some (Inr (machine 8 [1, 2, 0] (- 1) [97]))
   \<and> while_loop 2 [CountedToken Incr (- 1)] (machine 8 [0, 0, 1] (- 1) []) =
       Some (Inr (machine 8 [0, 0, 0] (- 1) []))
   \<and> execute 0 [LoopBody [CountedToken Incr (- 1)]] (machine 8 [0, 0, 1] (- 1) []) = None
   \<and> run 4 \<lparr> stack = [], c_tokens = [], data_ptr = 0, instr_ptr = 0,
              program = ''<+++[>+<-]'', cell_size = 8, memory = [0, 0, 0], max_int = 256,
              runtime_units = ''ms'', sys_stdin = [], sys_stdout = [] \<rparr> =
       Some (Inr \<lparr> stack = [],
              c_tokens = [CountedToken IncrPtr (- 1), CountedToken Incr 3,
                          LoopBody [CountedToken IncrPtr 1, CountedToken Incr 1,
                                    CountedToken IncrPtr (- 1), CountedToken Incr (- 1)]],
              data_ptr = - 1, instr_ptr = 10,
              program = ''<+++[>+<-]'', cell_size = 8, memory = [3, 0, 0], max_int = 256,
              runtime_units = ''ms'', sys_stdin = [], sys_stdout = [] \<rparr>)"
proof -
  let ?s = "machine 8 [1, 2, 3] 0 [97]"
  let ?s' = "machine 8 [1, 2, 3] (- 1) [97]"
  have lo: "- int (length (memory ?s)) \<le> data_ptr ?s + (- 1)"
    and hi: "data_ptr ?s + (- 1) < 0"
    by (simp_all add: machine_def)
  have s': "?s' = incr_ptr (- 1) ?s"
    by (simp add: machine_def incr_ptr_def Let_def)
  have j: "(2::nat) = nat (int (length (memory ?s)) + (data_ptr ?s + (- 1)))"
    by (simp add: machine_def)
  have rd: "py_read 1 (sys_stdin ?s) = ([97], [])"
    by (simp add: machine_def py_read_def)
  note t = negative_pointer_wraps [OF lo hi s' j, where c = 5 and k = 2 and m = 1
                                     and x = 97 and rest = "[]"]
  from t have c1: "exec_counted IncrPtr (- 1) ?s = Inr ?s'" by blast
  from t have "getitem (memory ?s') (data_ptr ?s') = Inr (memory ?s ! 2)" by blast
  then have c2: "getitem (memory ?s') (data_ptr ?s') = Inr 3" by (simp add: machine_def)
  from t have "1 \<le> cell_size ?s \<longrightarrow>
      incr 5 ?s' = Inr (?s'\<lparr>memory := (memory ?s)[2 := (memory ?s ! 2 + 5) mod 2 ^ nat (cell_size ?s)]\<rparr>)"
    by blast
  then have c3: "incr 5 ?s' = Inr (machine 8 [1, 2, 8] (- 1) [97])" by (simp add: machine_def)
  from t have "0 \<le> memory ?s ! 2 \<and> memory ?s ! 2 < 1114112
      \<and> \<not> (55296 \<le> memory ?s ! 2 \<and> memory ?s ! 2 \<le> 57343) \<longrightarrow>
      stdout 2 ?s' = Inr (?s'\<lparr>sys_stdout := sys_stdout ?s @ replicate (nat 2) (nat (memory ?s ! 2))\<rparr>)"
    by blast
  then have c4: "stdout 2 ?s' = Inr (?s'\<lparr>sys_stdout := [3, 3]\<rparr>)"
    by (simp add: machine_def numeral_2_eq_2)
  from t rd have "stdin 1 ?s' = Inr (?s'\<lparr>sys_stdin := [], memory := (memory ?s)[2 := int 97]\<rparr>)"
    by blast
  then have c5: "stdin 1 ?s' = Inr (machine 8 [1, 2, 97] (- 1) [])" by (simp add: machine_def)
  have pre: "1 \<le> cell_size ?s \<and> 0 \<le> memory ?s ! 2 \<and> memory ?s ! 2 < 2 ^ nat (cell_size ?s)"
    by (simp add: machine_def)
  with t have "execute (Suc (nat (memory ?s ! 2))) [LoopBody [CountedToken Incr (- 1)]] ?s' =
        Some (Inr (?s'\<lparr>memory := (memory ?s)[2 := 0]\<rparr>))"
    by blast
  moreover have "Suc (nat (memory ?s ! 2)) = 4" by (simp add: machine_def)
  moreover have "?s'\<lparr>memory := (memory ?s)[2 := 0]\<rparr> = machine 8 [1, 2, 0] (- 1) [97]"
    by (simp add: machine_def)
  ultimately have c6: "execute 4 [LoopBody [CountedToken Incr (- 1)]] ?s' =
       Some (Inr (machine 8 [1, 2, 0] (- 1) [97]))"
    by (simp only:)
  let ?u = "machine 8 [0, 0, 1] 0 []"
  let ?u' = "machine 8 [0, 0, 1] (- 1) []"
  have ulo: "- int (length (memory ?u)) \<le> data_ptr ?u + (- 1)"
    and uhi: "data_ptr ?u + (- 1) < 0"
    by (simp_all add: machine_def)
  have u': "?u' = incr_ptr (- 1) ?u"
    by (simp add: machine_def incr_ptr_def Let_def)
  have uj: "(2::nat) = nat (int (length (memory ?u)) + (data_ptr ?u + (- 1)))"
    by (simp add: machine_def)
  note tu = negative_pointer_wraps [OF ulo uhi u' uj]
  have upre: "1 \<le> cell_size ?u \<and> 0 \<le> memory ?u ! 2 \<and> memory ?u ! 2 < 2 ^ nat (cell_size ?u)"
    by (simp add: machine_def)
  with tu have "while_loop (Suc (nat (memory ?u ! 2))) [CountedToken Incr (- 1)] ?u' =
        Some (Inr (?u'\<lparr>memory := (memory ?u)[2 := 0]\<rparr>))"
    by blast
  moreover have "Suc (nat (memory ?u ! 2)) = 2" by (simp add: machine_def)
  moreover have "?u'\<lparr>memory := (memory ?u)[2 := 0]\<rparr> = machine 8 [0, 0, 0] (- 1) []"
    by (simp add: machine_def)
  ultimately have c7: "while_loop 2 [CountedToken Incr (- 1)] ?u' =
       Some (Inr (machine 8 [0, 0, 0] (- 1) []))"
    by (simp only:)
  have c8: "execute 0 [LoopBody [CountedToken Incr (- 1)]] ?u' = None" by simp
  have c9: "run 4 \<lparr> stack = [], c_tokens = [], data_ptr = 0, instr_ptr = 0,
              program = ''<+++[>+<-]'', cell_size = 8, memory = [0, 0, 0], max_int = 256,
              runtime_units = ''ms'', sys_stdin = [], sys_stdout = [] \<rparr> =
       Some (Inr \<lparr> stack = [],
              c_tokens = [CountedToken IncrPtr (- 1), CountedToken Incr 3,
                          LoopBody [CountedToken IncrPtr 1, CountedToken Incr 1,
                                    CountedToken IncrPtr (- 1), CountedToken Incr (- 1)]],
              data_ptr = - 1, instr_ptr = 10,
              program = ''<+++[>+<-]'', cell_size = 8, memory = [3, 0, 0], max_int = 256,
              runtime_units = ''ms'', sys_stdin = [], sys_stdout = [] \<rparr>)"
    by (simp add: run_def parse_def parse_loop.simps parse_step_def fold_run.simps
                  Token_of_chars delta_def Let_def exec_counted_def incr_ptr_def incr_def
                  getitem_def setitem_def py_index_def py_lshift_def eval_nat_numeral)
  from c1 c2 c3 c4 c5 c6 c7 c8 c9 show ?thesis by blast
qed

text \<open>
  C8, as the code has it. When \<open>parse\<close> raises, \<open>run\<close> ends with that exception and
  executes nothing: tape, pointer and both streams are as they were before the
  compilation. The interpreter is not rolled back. Its list of compiled nodes is the
  one it had, followed by the nodes completed before the failure. After an unmatched
  \<open>[\<close> it is exactly as the complete scan left it, with the bodies of the open loops
  on its stack. After an unmatched \<open>]\<close> at position \<open>i\<close> it is, but for the program
  text, exactly as the scan of the first \<open>i\<close> characters leaves it, with no loop open.
\<close>

theorem failed_parse_runs_nothing:
  assumes "parse s = Inl (e, s')"
  shows "run fuel s = Some (Inl (e, s'))
       \<and> memory s' = memory s \<and> data_ptr s' = data_ptr s
       \<and> sys_stdin s' = sys_stdin s \<and> sys_stdout s' = sys_stdout s
       \<and> (\<exists>xs. c_tokens s' = c_tokens s @ xs)
       \<and> (e = NoMatchingClosed \<longrightarrow> parse_loop s = Inr s' \<and> stack s' \<noteq> [])
       \<and> (\<forall>i. e = NoMatchingOpen i \<longrightarrow>
             instr_ptr s' = i \<and> stack s' = []
             \<and> parse_loop (s\<lparr>program := take i (program s)\<rparr>) =
                 Inr (s'\<lparr>program := take i (program s)\<rparr>))"
proof -
  from parse_keeps [of s] assms have "tape_kept s s'" by simp
  then have k: "memory s' = memory s \<and> data_ptr s' = data_ptr s
       \<and> sys_stdin s' = sys_stdin s \<and> sys_stdout s' = sys_stdout s
       \<and> (\<exists>xs. c_tokens s' = c_tokens s @ xs)"
    by (simp add: tape_kept_def)
  from assms have r: "run fuel s = Some (Inl (e, s'))" by (simp add: run_def)
  have c: "parse_loop s = Inr s' \<and> stack s' \<noteq> []" if "e = NoMatchingClosed"
  proof (cases "parse_loop s")
    case (Inl x)
    with assms that have "parse_loop s = Inl (NoMatchingClosed, s')" by (simp add: parse_def)
    from parse_loop_raises [OF this] show ?thesis by blast
  next
    case (Inr s1)
    with assms have "s1 = s'" "stack s' \<noteq> []"
      by (auto simp: parse_def split: if_splits)
    with Inr show ?thesis by simp
  qed
  have o: "instr_ptr s' = i \<and> stack s' = []
             \<and> parse_loop (s\<lparr>program := take i (program s)\<rparr>) =
                 Inr (s'\<lparr>program := take i (program s)\<rparr>)"
    if "e = NoMatchingOpen i" for i
  proof -
    from assms that have pl: "parse_loop s = Inl (NoMatchingOpen i, s')"
      by (auto simp: parse_def split: sum.splits if_splits)
    from parse_loop_raises [OF pl] have "instr_ptr s' = i" "stack s' = []" by blast+
    with parse_loop_prefix [OF pl] show ?thesis by blast
  qed
  from r k c o show ?thesis by blast
qed

theorem failed_parse_runs_nothing_witness:
  "run 0 \<lparr> stack = [], c_tokens = [], data_ptr = 0, instr_ptr = 0, program = ''+]'',
           cell_size = 8, memory = [0], max_int = 256, runtime_units = ''ms'',
           sys_stdin = [], sys_stdout = [] \<rparr> =
     Some (Inl (NoMatchingOpen 1,
          \<lparr> stack = [], c_tokens = [CountedToken Incr 1], data_ptr = 0, instr_ptr = 1,
            program = ''+]'', cell_size = 8, memory = [0], max_int = 256,
            runtime_units = ''ms'', sys_stdin = [], sys_stdout = [] \<rparr>))
   \<and> parse_loop \<lparr> stack = [], c_tokens = [], data_ptr = 0, instr_ptr = 0, program = ''+'',
           cell_size = 8, memory = [0], max_int = 256, runtime_units = ''ms'',
           sys_stdin = [], sys_stdout = [] \<rparr> =
     Inr \<lparr> stack = [], c_tokens = [CountedToken Incr 1], data_ptr = 0, instr_ptr = 1,
            program = ''+'', cell_size = 8, memory = [0], max_int = 256,
            runtime_units = ''ms'', sys_stdin = [], sys_stdout = [] \<rparr>
   \<and> parse_loop \<lparr> stack = [], c_tokens = [], data_ptr = 0, instr_ptr = 0, program = ''+[-'',
           cell_size = 8, memory = [0], max_int = 256, runtime_units = ''ms'',
           sys_stdin = [], sys_stdout = [] \<rparr> =
     Inr \<lparr> stack = [[CountedToken Incr (- 1)]], c_tokens = [CountedToken Incr 1],
            data_ptr = 0, instr_ptr = 3,
            program = ''+[-'', cell_size = 8, memory = [0], max_int = 256,
            runtime_units = ''ms'', sys_stdin = [], sys_stdout = [] \<rparr>"
proof -
  let ?a = "\<lparr> stack = [], c_tokens = [], data_ptr = 0, instr_ptr = 0, program = ''+]'',
           cell_size = 8, memory = [0], max_int = 256, runtime_units = ''ms'',
           sys_stdin = [], sys_stdout = [] \<rparr>"
  let ?a' = "\<lparr> stack = [], c_tokens = [CountedToken Incr 1], data_ptr = 0, instr_ptr = 1,
            program = ''+]'', cell_size = 8, memory = [0], max_int = 256,
            runtime_units = ''ms'', sys_stdin = [], sys_stdout = [] \<rparr>"
  let ?b = "\<lparr> stack = [], c_tokens = [], data_ptr = 0, instr_ptr = 0, program = ''+[-'',
           cell_size = 8, memory = [0], max_int = 256, runtime_units = ''ms'',
           sys_stdin = [], sys_stdout = [] \<rparr>"
  let ?b' = "\<lparr> stack = [[CountedToken Incr (- 1)]], c_tokens = [CountedToken Incr 1],
            data_ptr = 0, instr_ptr = 3,
            program = ''+[-'', cell_size = 8, memory = [0], max_int = 256,
            runtime_units = ''ms'', sys_stdin = [], sys_stdout = [] \<rparr>"
  have pa: "parse ?a = Inl (NoMatchingOpen 1, ?a')"
    by (simp add: parse_def parse_loop.simps parse_step_def fold_run.simps
                Token_of_chars delta_def Let_def)
  have pb: "parse ?b = Inl (NoMatchingClosed, ?b')"
    by (simp add: parse_def parse_loop.simps parse_step_def fold_run.simps
                Token_of_chars delta_def Let_def)
  note ta = failed_parse_runs_nothing [OF pa, of 0]
  note tb = failed_parse_runs_nothing [OF pb, of 0]
  from ta have r: "run 0 ?a = Some (Inl (NoMatchingOpen 1, ?a'))" by blast
  from ta have "parse_loop (?a\<lparr>program := take 1 (program ?a)\<rparr>) =
                  Inr (?a'\<lparr>program := take 1 (program ?a)\<rparr>)"
    by blast
  then have pre: "parse_loop \<lparr> stack = [], c_tokens = [], data_ptr = 0, instr_ptr = 0,
           program = ''+'', cell_size = 8, memory = [0], max_int = 256, runtime_units = ''ms'',
           sys_stdin = [], sys_stdout = [] \<rparr> =
     Inr \<lparr> stack = [], c_tokens = [CountedToken Incr 1], data_ptr = 0, instr_ptr = 1,
            program = ''+'', cell_size = 8, memory = [0], max_int = 256,
            runtime_units = ''ms'', sys_stdin = [], sys_stdout = [] \<rparr>"
    by simp
  from tb have full: "parse_loop ?b = Inr ?b'" by blast
  from r pre full show ?thesis by blast
qed

text \<open>
  C8, as stated, fails: after the failed compilation of \<open>+]\<close> the interpreter
  holds the node compiled before the unmatched bracket in \<open>c_tokens\<close>, and after the
  failed compilation of \<open>+[-\<close> it holds one node in \<open>c_tokens\<close> and the body of the
  open loop on \<open>stack\<close>.
\<close>

theorem partial_program_retained:
  "init ''+]'' 8 1 ''ms'' [] =
     Inr \<lparr> stack = [], c_tokens = [], data_ptr = 0, instr_ptr = 0, program = ''+]'',
           cell_size = 8, memory = [0], max_int = 256, runtime_units = ''ms'',
           sys_stdin = [], sys_stdout = [] \<rparr>
   \<and> parse \<lparr> stack = [], c_tokens = [], data_ptr = 0, instr_ptr = 0, program = ''+]'',
           cell_size = 8, memory = [0], max_int = 256, runtime_units = ''ms'',
           sys_stdin = [], sys_stdout = [] \<rparr> =
     Inl (NoMatchingOpen 1,
          \<lparr> stack = [], c_tokens = [CountedToken Incr 1], data_ptr = 0, instr_ptr = 1,
            program = ''+]'', cell_size = 8, memory = [0], max_int = 256,
            runtime_units = ''ms'', sys_stdin = [], sys_stdout = [] \<rparr>)
   \<and> parse \<lparr> stack = [], c_tokens = [], data_ptr = 0, instr_ptr = 0, program = ''+[-'',
           cell_size = 8, memory = [0], max_int = 256, runtime_units = ''ms'',
           sys_stdin = [], sys_stdout = [] \<rparr> =
     Inl (NoMatchingClosed,
          \<lparr> stack = [[CountedToken Incr (- 1)]], c_tokens = [CountedToken Incr 1],
            data_ptr = 0, instr_ptr = 3,
            program = ''+[-'', cell_size = 8, memory = [0], max_int = 256,
            runtime_units = ''ms'', sys_stdin = [], sys_stdout = [] \<rparr>)"
  by (simp add: init_def py_lshift_def parse_def parse_loop.simps parse_step_def fold_run.simps
                Token_of_chars delta_def Let_def)

text \<open>
  C3, at an input where the code does not do what the claim says. The program
  \<open>>>>+\<close> on a tape of two cells: the three movements are one node of count 3, the
  pointer becomes 3, which is not the length 2, so the tape does not grow and the
  cell modification raises \<open>IndexError\<close>. Likewise a pointer moved from 3 to 5 on a
  tape of four cells leaves the tape at four cells, and on a tape of one cell a
  movement to index 1 appends half of one cell, which is none.
\<close>

theorem growth_missed_past_end:
  "init ''>>>+'' 8 2 ''ms'' [] =
     Inr \<lparr> stack = [], c_tokens = [], data_ptr = 0, instr_ptr = 0, program = ''>>>+'',
           cell_size = 8, memory = [0, 0], max_int = 256, runtime_units = ''ms'',
           sys_stdin = [], sys_stdout = [] \<rparr>
   \<and> run 0 \<lparr> stack = [], c_tokens = [], data_ptr = 0, instr_ptr = 0, program = ''>>>+'',
           cell_size = 8, memory = [0, 0], max_int = 256, runtime_units = ''ms'',
           sys_stdin = [], sys_stdout = [] \<rparr> =
     Some (Inl (IndexError,
          \<lparr> stack = [], c_tokens = [CountedToken IncrPtr 3, CountedToken Incr 1],
            data_ptr = 3, instr_ptr = 4, program = ''>>>+'',
            cell_size = 8, memory = [0, 0], max_int = 256, runtime_units = ''ms'',
            sys_stdin = [], sys_stdout = [] \<rparr>))
   \<and> incr_ptr 2 (machine 8 [0, 0, 0, 0] 3 []) = machine 8 [0, 0, 0, 0] 5 []
   \<and> incr 1 (machine 8 [0, 0, 0, 0] 5 []) = Inl (IndexError, machine 8 [0, 0, 0, 0] 5 [])
   \<and> incr_ptr 1 (machine 8 [0] 0 []) = machine 8 [0] 1 []"
  by (simp add: machine_def incr_ptr_def incr_def getitem_def setitem_def py_index_def
                numeral_2_eq_2 exec_counted_def run_def init_def py_lshift_def parse_def
                parse_loop.simps parse_step_def fold_run.simps Token_of_chars delta_def Let_def)

text \<open>
  C4, at an input where the code does not do what the claim says. The program \<open>,,\<close>
  compiles to one input node of count 2; with the two characters \<open>ab\<close> waiting, the
  node reads both at once and \<open>ord\<close> of a string of two characters raises
  \<open>TypeError\<close>: the cell keeps its value and both characters are consumed.
\<close>

theorem folded_input_raises:
  "init '',,'' 8 1 ''ms'' [97, 98] =
     Inr \<lparr> stack = [], c_tokens = [], data_ptr = 0, instr_ptr = 0, program = '',,'',
           cell_size = 8, memory = [0], max_int = 256, runtime_units = ''ms'',
           sys_stdin = [97, 98], sys_stdout = [] \<rparr>
   \<and> run 0 \<lparr> stack = [], c_tokens = [], data_ptr = 0, instr_ptr = 0, program = '',,'',
           cell_size = 8, memory = [0], max_int = 256, runtime_units = ''ms'',
           sys_stdin = [97, 98], sys_stdout = [] \<rparr> =
     Some (Inl (TypeError,
          \<lparr> stack = [], c_tokens = [CountedToken StdIn 2],
            data_ptr = 0, instr_ptr = 2, program = '',,'',
            cell_size = 8, memory = [0], max_int = 256, runtime_units = ''ms'',
            sys_stdin = [], sys_stdout = [] \<rparr>))
   \<and> stdin 2 (machine 8 [0] 0 [97, 98]) = Inl (TypeError, machine 8 [0] 0 [])"
  by (simp add: machine_def stdin_def py_read_def py_ord_def
                exec_counted_def run_def init_def py_lshift_def parse_def
                parse_loop.simps parse_step_def fold_run.simps Token_of_chars delta_def Let_def)

text \<open>
  C5, at an input where the code does not do what the claim says. With cell width 4,
  the program \<open>,\<close> and the character \<open>a\<close> (code 97) waiting, the run returns with
  97 in the cell, which is not below \<open>2^4\<close>; with cell width 8 the same happens for
  a character of code 8364.
\<close>

theorem input_exceeds_cell_range:
  "init '','' 4 1 ''ms'' [97] =
     Inr \<lparr> stack = [], c_tokens = [], data_ptr = 0, instr_ptr = 0, program = '','',
           cell_size = 4, memory = [0], max_int = 16, runtime_units = ''ms'',
           sys_stdin = [97], sys_stdout = [] \<rparr>
   \<and> run 0 \<lparr> stack = [], c_tokens = [], data_ptr = 0, instr_ptr = 0, program = '','',
           cell_size = 4, memory = [0], max_int = 16, runtime_units = ''ms'',
           sys_stdin = [97], sys_stdout = [] \<rparr> =
     Some (Inr \<lparr> stack = [], c_tokens = [CountedToken StdIn 1],
            data_ptr = 0, instr_ptr = 1, program = '','',
            cell_size = 4, memory = [97], max_int = 16, runtime_units = ''ms'',
            sys_stdin = [], sys_stdout = [] \<rparr>)
   \<and> stdin 1 (machine 4 [0] 0 [97]) = Inr (machine 4 [97] 0 [])
   \<and> (2 :: int) ^ nat (cell_size (machine 4 [97] 0 [])) \<le> 97
   \<and> stdin 1 (machine 8 [0] 0 [8364]) = Inr (machine 8 [8364] 0 [])
   \<and> (2 :: int) ^ nat (cell_size (machine 8 [8364] 0 [])) \<le> 8364"
  by (simp add: machine_def stdin_def py_read_def py_ord_def setitem_def py_index_def
                cells_in_range_def
                exec_counted_def run_def init_def py_lshift_def parse_def
                parse_loop.simps parse_step_def fold_run.simps Token_of_chars delta_def Let_def)

end
